theory Spec2Isabelle
  imports Main "HOL-Library.List_Lexorder" "HOL-Library.Char_ord"
begin

section \<open>The index rebuild of gogdb (\<^verbatim>\<open>gogdb/updater/indexdb.py\<close>)\<close>

text \<open>
  The updater rebuilds three tables of an SQLite index (\<^verbatim>\<open>products\<close>,
  \<^verbatim>\<open>changelog\<close>, \<^verbatim>\<open>changelog_summary\<close>) from the primary store of products and
  per-product changelogs. Python integers are \<open>int\<close>, strings are \<open>string\<close> (the bytes
  of their UTF-8 encoding, whose lexicographic order is the order of the code points),
  \<^verbatim>\<open>None\<close>-able attributes are \<open>option\<close>s, exceptions are values of \<open>error\<close>.
\<close>

subsection \<open>The records of the primary store\<close>

text \<open>
  Modelled from the spec: the classes of \<^verbatim>\<open>gogdb.core.model\<close>, which is not among the
  sources. Section 3 of the specification gives their fields; only the attributes that
  \<^verbatim>\<open>indexdb.py\<close> reads are kept. A \<^verbatim>\<open>datetime\<close> is an instant, here a whole number
  (two datetimes are the same dictionary key exactly when they are the same instant).
\<close>

type_synonym datetime = int

record Product =
  prod_id :: int
  title :: string
  image_logo :: string
  prod_type :: string
  comp_systems :: "string set"
  rank_bestselling :: "int option"

record BonusDownload =
  bonus_type :: string

record DownloadRecord =
  dl_type :: string
  dl_new_bonus :: "BonusDownload option"
  dl_old_bonus :: "BonusDownload option"

record PropertyRecord =
  property_name :: string

record ChangeRecord =
  product_id :: int
  timestamp :: datetime
  action :: string
  category :: string
  download_record :: "DownloadRecord option"
  property_record :: "PropertyRecord option"

text \<open>
  Modelled from the spec: \<^verbatim>\<open>model.IndexChange\<close>. The three category-specific attributes
  are \<^verbatim>\<open>None\<close> unless assigned.
\<close>

record IndexChange =
  idx_id :: int
  idx_title :: string
  idx_timestamp :: datetime
  idx_action :: string
  idx_category :: string
  idx_dl_type :: "string option"
  idx_bonus_type :: "string option"
  idx_property_name :: "string option"
  idx_record :: ChangeRecord

text \<open>
  \<^verbatim>\<open>gogdb.core.normalization\<close> is not among the sources either; its two functions are
  parameters of the model.
\<close>

record normalization =
  compress_systems :: "string set \<Rightarrow> string"
  normalize_search :: "string \<Rightarrow> string"

subsection \<open>Errors\<close>

text \<open>
  \<open>AttributeError\<close> is what Python raises for an attribute of \<^verbatim>\<open>None\<close>;
  \<open>StoreIOError\<close> stands for every exception of the index store (a statement that
  SQLite rejects, or an I/O failure).
\<close>

datatype error = AttributeError | StoreIOError

subsection \<open>JSON text of a change record\<close>

datatype json = JNull | JInt int | JStr string | JObj "(string \<times> json) list"

text \<open>
  Modelled from the spec: \<^verbatim>\<open>storage.json_encoder\<close> (the \<^verbatim>\<open>default\<close> hook of
  \<^verbatim>\<open>json.dumps\<close>), not among the sources. Section 6 says that the values match the
  structure of the change record, nested payloads included: a record becomes an object
  with one member per attribute, an absent payload becomes \<^verbatim>\<open>null\<close>.
\<close>

definition bonus_json :: "BonusDownload option \<Rightarrow> json" where
  "bonus_json b = (case b of None \<Rightarrow> JNull
     | Some x \<Rightarrow> JObj [(''bonus_type'', JStr (bonus_type x))])"

definition download_json :: "DownloadRecord option \<Rightarrow> json" where
  "download_json d = (case d of None \<Rightarrow> JNull
     | Some x \<Rightarrow> JObj [(''dl_type'', JStr (dl_type x)),
                       (''dl_new_bonus'', bonus_json (dl_new_bonus x)),
                       (''dl_old_bonus'', bonus_json (dl_old_bonus x))])"

definition property_json :: "PropertyRecord option \<Rightarrow> json" where
  "property_json p = (case p of None \<Rightarrow> JNull
     | Some x \<Rightarrow> JObj [(''property_name'', JStr (property_name x))])"

definition json_encoder :: "ChangeRecord \<Rightarrow> json" where
  "json_encoder r = JObj
     [(''product_id'', JInt (product_id r)),
      (''timestamp'', JInt (timestamp r)),
      (''action'', JStr (action r)),
      (''category'', JStr (category r)),
      (''download_record'', download_json (download_record r)),
      (''property_record'', property_json (property_record r))]"

text \<open>
  \<^verbatim>\<open>",".join(xs)\<close> and, with other separators, the joins of \<^verbatim>\<open>json.dumps\<close>.
\<close>

fun join :: "string \<Rightarrow> string list \<Rightarrow> string" where
  "join sep [] = []"
| "join sep [x] = x"
| "join sep (x # y # ys) = x @ sep @ join sep (y # ys)"

text \<open>Decimal digits of a Python integer, as \<^verbatim>\<open>json.dumps\<close> prints it.\<close>

fun digits :: "nat \<Rightarrow> string" where
  "digits n = (if n < 10 then [''0123456789'' ! n]
               else digits (n div 10) @ [''0123456789'' ! (n mod 10)])"

declare digits.simps [simp del]

definition int_text :: "int \<Rightarrow> string" where
  "int_text i = (if i < 0 then CHR ''-'' # digits (nat (- i)) else digits (nat i))"

text \<open>
  The escapes of \<^verbatim>\<open>json.dumps\<close> under \<^verbatim>\<open>ensure_ascii=False\<close>: the quote, the backslash
  and the control characters below \<^verbatim>\<open>0x20\<close>; every other character, the bytes of a
  non-ASCII character included, is written as it is.
\<close>

definition hex_digit :: "nat \<Rightarrow> char" where
  "hex_digit n = ''0123456789abcdef'' ! n"

definition escape_char :: "char \<Rightarrow> string" where
  "escape_char c =
     (if c = CHR ''\"'' then [CHR 0x5C, CHR ''\"'']
      else if c = CHR 0x5C then [CHR 0x5C, CHR 0x5C]
      else if c = CHR 0x0A then [CHR 0x5C, CHR ''n'']
      else if c = CHR 0x0D then [CHR 0x5C, CHR ''r'']
      else if c = CHR 0x09 then [CHR 0x5C, CHR ''t'']
      else if c = CHR 0x08 then [CHR 0x5C, CHR ''b'']
      else if c = CHR 0x0C then [CHR 0x5C, CHR ''f'']
      else if (of_char c :: nat) < 32
        then [CHR 0x5C, CHR ''u'', CHR ''0'', CHR ''0'',
              hex_digit (of_char c div 16), hex_digit (of_char c mod 16)]
      else [c])"

definition quote :: "string \<Rightarrow> string" where
  "quote s = CHR ''\"'' # concat (map escape_char s) @ [CHR ''\"'']"

text \<open>
  \<^verbatim>\<open>json.dumps(obj, sort_keys=True, ensure_ascii=False)\<close> with the default separators:
  the members of every object are written in the order of their keys.
\<close>

primrec json_dumps :: "json \<Rightarrow> string" where
  "json_dumps JNull = ''null''"
| "json_dumps (JInt i) = int_text i"
| "json_dumps (JStr s) = quote s"
| "json_dumps (JObj kvs) =
     ''{'' @ join '', '' (map (\<lambda>(k, t). quote k @ '': '' @ t)
                            (sort_key fst (map (map_prod id json_dumps) kvs))) @ ''}''"


primrec sort_keys :: "json \<Rightarrow> json" where
  "sort_keys JNull = JNull"
| "sort_keys (JInt i) = JInt i"
| "sort_keys (JStr s) = JStr s"
| "sort_keys (JObj kvs) = JObj (sort_key fst (map (map_prod id sort_keys) kvs))"


text \<open>
  Reading the text back, as \<^verbatim>\<open>json.loads\<close> of the Python library does for the texts
  that \<open>json_dumps\<close> writes: the grammar of JSON with \<^verbatim>\<open>null\<close>, integers, strings and
  objects, and with the separators \<^verbatim>\<open>", "\<close> and \<^verbatim>\<open>": "\<close>. The members of an object
  come back in the order in which the text has them. Text that is not of this grammar
  is refused (\<open>None\<close>): a raw control character or an unknown escape in a string, a
  number with a leading zero, a missing separator, anything after the value.
\<close>

fun strip_prefix :: "string \<Rightarrow> string \<Rightarrow> string option" where
  "strip_prefix [] s = Some s"
| "strip_prefix (p # ps) [] = None"
| "strip_prefix (p # ps) (c # cs) = (if p = c then strip_prefix ps cs else None)"



definition hex_val :: "char \<Rightarrow> nat option" where
  "hex_val c =
     (let n = (of_char c :: nat) in
      if 48 \<le> n \<and> n \<le> 57 then Some (n - 48)
      else if 97 \<le> n \<and> n \<le> 102 then Some (n - 87)
      else if 65 \<le> n \<and> n \<le> 70 then Some (n - 55)
      else None)"

definition escape_code :: "char \<Rightarrow> char option" where
  "escape_code e =
     (if e = CHR ''\"'' then Some (CHR ''\"'')
      else if e = CHR 0x5C then Some (CHR 0x5C)
      else if e = CHR ''/'' then Some (CHR ''/'')
      else if e = CHR ''b'' then Some (CHR 0x08)
      else if e = CHR ''f'' then Some (CHR 0x0C)
      else if e = CHR ''n'' then Some (CHR 0x0A)
      else if e = CHR ''r'' then Some (CHR 0x0D)
      else if e = CHR ''t'' then Some (CHR 0x09)
      else None)"

text \<open>
  A string, from after its opening quote to its closing quote: the characters it
  stands for, and the text after it. Of the \<^verbatim>\<open>\u\<close> escapes only those of ASCII
  characters are read; \<open>json_dumps\<close> writes no other.
\<close>

definition cons_to :: "char \<Rightarrow> (string \<times> string) option \<Rightarrow> (string \<times> string) option" where
  "cons_to c r = map_option (\<lambda>(s, rest). (c # s, rest)) r"

fun read_string :: "string \<Rightarrow> (string \<times> string) option" where
  "read_string [] = None"
| "read_string (c # cs) =
     (if c = CHR ''\"'' then Some ([], cs)
      else if c = CHR 0x5C then
        (case cs of
           [] \<Rightarrow> None
         | e # cs' \<Rightarrow>
             if e = CHR ''u'' then
               (case cs' of
                  h1 # h2 # h3 # h4 # cs'' \<Rightarrow>
                    (case (hex_val h1, hex_val h2, hex_val h3, hex_val h4) of
                       (Some a, Some b, Some c', Some d) \<Rightarrow>
                         (let n = ((a * 16 + b) * 16 + c') * 16 + d
                          in if n < 128 then cons_to (char_of n) (read_string cs'') else None)
                     | _ \<Rightarrow> None)
                | _ \<Rightarrow> None)
             else
               (case escape_code e of
                  Some x \<Rightarrow> cons_to x (read_string cs')
                | None \<Rightarrow> None))
      else if (of_char c :: nat) < 32 then None
      else cons_to c (read_string cs))"





subsection \<open>The rows of the index\<close>

text \<open>
  One record per table, with the columns of \<^verbatim>\<open>init_db\<close>. The two \<^verbatim>\<open>timestamp\<close>
  columns hold \<^verbatim>\<open>datetime.timestamp()\<close>, the instant as seconds since the epoch; the
  model keeps the instant itself.
\<close>

record product_row =
  p_product_id :: int
  p_title :: string
  p_image_logo :: string
  p_product_type :: string
  p_comp_systems :: string
  p_sale_rank :: int
  p_search_title :: string

record changelog_row =
  c_product_id :: int
  c_product_title :: string
  c_timestamp :: datetime
  c_action :: string
  c_category :: string
  c_dl_type :: "string option"
  c_bonus_type :: "string option"
  c_property_name :: "string option"
  c_serialized_record :: string

record summary_row =
  s_product_id :: int
  s_product_title :: string
  s_timestamp :: datetime
  s_categories :: string

subsection \<open>The index store\<close>

text \<open>
  The SQLite engine as the updater uses it. A table that was never created is
  \<open>None\<close>. The connection is opened with \<^verbatim>\<open>isolation_level=None\<close>: a statement
  outside a transaction is written to the file at once, a statement after
  \<^verbatim>\<open>BEGIN TRANSACTION\<close> works on a copy that \<^verbatim>\<open>END TRANSACTION\<close> writes to the file.
  \<open>persisted\<close> is what the file holds, and so what a later connection finds, whether
  this one was closed or not. \<open>io_budget\<close> injects a failure: \<open>Some n\<close> lets \<open>n\<close>
  more statements through and fails the next one, \<open>None\<close> never fails.
\<close>

record tables =
  t_products :: "product_row list option"
  t_changelog :: "changelog_row list option"
  t_changelog_summary :: "summary_row list option"
  t_indexes :: "string list"

record conn =
  persisted :: tables
  txn :: "tables option"
  io_budget :: "nat option"

datatype table_name = Products | Changelog | ChangelogSummary

datatype statement =
    CREATE_TABLE table_name
  | CREATE_INDEX string table_name
  | BEGIN_TRANSACTION
  | END_TRANSACTION
  | DELETE_FROM table_name
  | INSERT_INTO_products product_row
  | INSERT_INTO_changelog changelog_row
  | INSERT_INTO_changelog_summary summary_row
  | SELECT_COUNT table_name

definition no_tables :: tables where
  "no_tables = \<lparr>t_products = None, t_changelog = None, t_changelog_summary = None,
                 t_indexes = []\<rparr>"

fun table_exists :: "table_name \<Rightarrow> tables \<Rightarrow> bool" where
  "table_exists Products t = (t_products t \<noteq> None)"
| "table_exists Changelog t = (t_changelog t \<noteq> None)"
| "table_exists ChangelogSummary t = (t_changelog_summary t \<noteq> None)"

fun create_table :: "table_name \<Rightarrow> tables \<Rightarrow> tables" where
  "create_table Products t = t\<lparr>t_products := Some []\<rparr>"
| "create_table Changelog t = t\<lparr>t_changelog := Some []\<rparr>"
| "create_table ChangelogSummary t = t\<lparr>t_changelog_summary := Some []\<rparr>"

fun row_count :: "table_name \<Rightarrow> tables \<Rightarrow> int" where
  "row_count Products t = (case t_products t of None \<Rightarrow> 0 | Some rs \<Rightarrow> int (length rs))"
| "row_count Changelog t = (case t_changelog t of None \<Rightarrow> 0 | Some rs \<Rightarrow> int (length rs))"
| "row_count ChangelogSummary t =
     (case t_changelog_summary t of None \<Rightarrow> 0 | Some rs \<Rightarrow> int (length rs))"

text \<open>A statement on the tables it sees; \<open>None\<close> when SQLite rejects it.\<close>

fun run_statement :: "statement \<Rightarrow> tables \<Rightarrow> tables option" where
  "run_statement (CREATE_TABLE n) t =
     (if table_exists n t then None else Some (create_table n t))"
| "run_statement (CREATE_INDEX i n) t =
     (if table_exists n t \<and> i \<notin> set (t_indexes t)
      then Some (t\<lparr>t_indexes := t_indexes t @ [i]\<rparr>) else None)"
| "run_statement (DELETE_FROM n) t =
     (if table_exists n t then Some (create_table n t) else None)"
| "run_statement (INSERT_INTO_products r) t =
     (case t_products t of None \<Rightarrow> None
      | Some rs \<Rightarrow> Some (t\<lparr>t_products := Some (rs @ [r])\<rparr>))"
| "run_statement (INSERT_INTO_changelog r) t =
     (case t_changelog t of None \<Rightarrow> None
      | Some rs \<Rightarrow> Some (t\<lparr>t_changelog := Some (rs @ [r])\<rparr>))"
| "run_statement (INSERT_INTO_changelog_summary r) t =
     (case t_changelog_summary t of None \<Rightarrow> None
      | Some rs \<Rightarrow> Some (t\<lparr>t_changelog_summary := Some (rs @ [r])\<rparr>))"
| "run_statement (SELECT_COUNT n) t = (if table_exists n t then Some t else None)"
| "run_statement BEGIN_TRANSACTION t = None"
| "run_statement END_TRANSACTION t = None"

text \<open>The tables a statement of this connection sees.\<close>

definition visible :: "conn \<Rightarrow> tables" where
  "visible c = (case txn c of None \<Rightarrow> persisted c | Some w \<Rightarrow> w)"

text \<open>
  \<^verbatim>\<open>await cur.execute(...)\<close>: the new connection state, or the exception together with
  the state it leaves behind.
\<close>

definition execute :: "statement \<Rightarrow> conn \<Rightarrow> (error \<times> conn) + conn" where
  "execute stmt c =
     (if io_budget c = Some 0 then Inl (StoreIOError, c)
      else
        let c = c\<lparr>io_budget := map_option (\<lambda>n. n - 1) (io_budget c)\<rparr> in
        (case stmt of
           BEGIN_TRANSACTION \<Rightarrow>
             (case txn c of
                None \<Rightarrow> Inr (c\<lparr>txn := Some (persisted c)\<rparr>)
              | Some w \<Rightarrow> Inl (StoreIOError, c))
         | END_TRANSACTION \<Rightarrow>
             (case txn c of
                None \<Rightarrow> Inl (StoreIOError, c)
              | Some w \<Rightarrow> Inr (c\<lparr>persisted := w, txn := None\<rparr>))
         | _ \<Rightarrow>
             (case run_statement stmt (visible c) of
                None \<Rightarrow> Inl (StoreIOError, c)
              | Some t \<Rightarrow>
                  (case txn c of
                     None \<Rightarrow> Inr (c\<lparr>persisted := t\<rparr>)
                   | Some w \<Rightarrow> Inr (c\<lparr>txn := Some t\<rparr>)))))"

text \<open>Running one step after another: an exception ends the run.\<close>

definition and_then ::
  "(error \<times> conn) + 'a \<Rightarrow> ('a \<Rightarrow> (error \<times> conn) + 'b) \<Rightarrow> (error \<times> conn) + 'b" where
  "and_then r f = (case r of Inl e \<Rightarrow> Inl e | Inr x \<Rightarrow> f x)"

subsection \<open>\<^verbatim>\<open>init_db\<close> and \<^verbatim>\<open>count_rows\<close>\<close>

definition init_db :: "conn \<Rightarrow> (error \<times> conn) + conn" where
  "init_db cur =
     and_then (execute (CREATE_TABLE Products) cur) (\<lambda>cur.
     and_then (execute (CREATE_TABLE Changelog) cur) (\<lambda>cur.
     and_then (execute (CREATE_TABLE ChangelogSummary) cur) (\<lambda>cur.
     and_then (execute (CREATE_INDEX ''idx_products_sale_rank'' Products) cur) (\<lambda>cur.
     and_then (execute (CREATE_INDEX ''idx_changelog_timestamp'' Changelog) cur) (\<lambda>cur.
     execute (CREATE_INDEX ''idx_summary_timestamp'' ChangelogSummary) cur)))))"

definition count_rows :: "conn \<Rightarrow> table_name \<Rightarrow> (error \<times> conn) + (int \<times> conn)" where
  "count_rows cur n =
     and_then (execute (SELECT_COUNT n) cur) (\<lambda>cur. Inr (row_count n (visible cur), cur))"

subsection \<open>\<^verbatim>\<open>index_product\<close>\<close>

definition sale_rank :: "Product \<Rightarrow> int \<Rightarrow> int" where
  "sale_rank product num_ids =
     (case rank_bestselling product of
        Some r \<Rightarrow> num_ids - r + 1
      | None \<Rightarrow> 0)"

definition product_row_of :: "normalization \<Rightarrow> Product \<Rightarrow> int \<Rightarrow> product_row" where
  "product_row_of nz product num_ids =
     \<lparr>p_product_id = prod_id product,
      p_title = title product,
      p_image_logo = image_logo product,
      p_product_type = prod_type product,
      p_comp_systems = compress_systems nz (comp_systems product),
      p_sale_rank = sale_rank product num_ids,
      p_search_title = normalize_search nz (title product)\<rparr>"

definition index_product ::
  "normalization \<Rightarrow> Product \<Rightarrow> conn \<Rightarrow> int \<Rightarrow> (error \<times> conn) + conn" where
  "index_product nz product cur num_ids =
     execute (INSERT_INTO_products (product_row_of nz product num_ids)) cur"

subsection \<open>\<^verbatim>\<open>index_changelog\<close>\<close>

text \<open>
  Lines 74 to 90: the \<^verbatim>\<open>IndexChange\<close> of one change record. Reading an attribute of
  a payload that is \<^verbatim>\<open>None\<close> raises \<open>AttributeError\<close>.
\<close>

definition index_change :: "Product \<Rightarrow> ChangeRecord \<Rightarrow> error + IndexChange" where
  "index_change product changerec =
     (let idx_change =
        \<lparr>idx_id = prod_id product,
         idx_title = title product,
         idx_timestamp = timestamp changerec,
         idx_action = action changerec,
         idx_category = category changerec,
         idx_dl_type = None,
         idx_bonus_type = None,
         idx_property_name = None,
         idx_record = changerec\<rparr>
      in
        if category changerec = ''download'' then
          (case download_record changerec of
             None \<Rightarrow> Inl AttributeError
           | Some dl \<Rightarrow>
               let idx_change = idx_change\<lparr>idx_dl_type := Some (dl_type dl)\<rparr>;
                   idx_change =
                     (case dl_new_bonus dl of
                        Some b \<Rightarrow> idx_change\<lparr>idx_bonus_type := Some (bonus_type b)\<rparr>
                      | None \<Rightarrow> idx_change);
                   idx_change =
                     (case dl_old_bonus dl of
                        Some b \<Rightarrow> idx_change\<lparr>idx_bonus_type := Some (bonus_type b)\<rparr>
                      | None \<Rightarrow> idx_change)
               in Inr idx_change)
        else if category changerec = ''property'' then
          (case property_record changerec of
             None \<Rightarrow> Inl AttributeError
           | Some p \<Rightarrow> Inr (idx_change\<lparr>idx_property_name := Some (property_name p)\<rparr>))
        else Inr idx_change)"

text \<open>Lines 94 to 106: the row that is inserted for an \<^verbatim>\<open>IndexChange\<close>.\<close>

definition changelog_row_of :: "IndexChange \<Rightarrow> changelog_row" where
  "changelog_row_of idx_change =
     \<lparr>c_product_id = idx_id idx_change,
      c_product_title = idx_title idx_change,
      c_timestamp = idx_timestamp idx_change,
      c_action = idx_action idx_change,
      c_category = idx_category idx_change,
      c_dl_type = idx_dl_type idx_change,
      c_bonus_type = idx_bonus_type idx_change,
      c_property_name = idx_property_name idx_change,
      c_serialized_record = json_dumps (json_encoder (idx_record idx_change))\<rparr>"

text \<open>
  \<^verbatim>\<open>summaries = collections.defaultdict(set)\<close>: a dictionary keeps its keys in the
  order of their first insertion, so it is a list of pairs with distinct keys.
  \<open>summaries_add\<close> is \<^verbatim>\<open>summaries[timestamp].add(category)\<close>.
\<close>

type_synonym summaries = "(datetime \<times> string set) list"

fun summaries_add :: "datetime \<Rightarrow> string \<Rightarrow> summaries \<Rightarrow> summaries" where
  "summaries_add ts cat [] = [(ts, {cat})]"
| "summaries_add ts cat ((k, s) # rest) =
     (if k = ts then (k, insert cat s) # rest else (k, s) # summaries_add ts cat rest)"

text \<open>The first loop (lines 73 to 109).\<close>

fun index_changelog_records ::
  "Product \<Rightarrow> ChangeRecord list \<Rightarrow> summaries \<Rightarrow> conn \<Rightarrow> (error \<times> conn) + (summaries \<times> conn)"
  where
  "index_changelog_records product [] summaries cur = Inr (summaries, cur)"
| "index_changelog_records product (changerec # rest) summaries cur =
     (case index_change product changerec of
        Inl e \<Rightarrow> Inl (e, cur)
      | Inr idx_change \<Rightarrow>
          and_then (execute (INSERT_INTO_changelog (changelog_row_of idx_change)) cur) (\<lambda>cur.
          index_changelog_records product rest
            (summaries_add (timestamp changerec) (category changerec) summaries) cur))"

definition summary_row_of :: "Product \<Rightarrow> datetime \<times> string set \<Rightarrow> summary_row" where
  "summary_row_of product item =
     (let category_str = join '','' (sorted_list_of_set (snd item))
      in \<lparr>s_product_id = prod_id product,
          s_product_title = title product,
          s_timestamp = fst item,
          s_categories = category_str\<rparr>)"

text \<open>The second loop (lines 111 to 121).\<close>

fun index_changelog_summaries ::
  "Product \<Rightarrow> summaries \<Rightarrow> conn \<Rightarrow> (error \<times> conn) + conn" where
  "index_changelog_summaries product [] cur = Inr cur"
| "index_changelog_summaries product (item # rest) cur =
     and_then (execute (INSERT_INTO_changelog_summary (summary_row_of product item)) cur) (\<lambda>cur.
     index_changelog_summaries product rest cur)"

definition index_changelog ::
  "Product \<Rightarrow> ChangeRecord list \<Rightarrow> conn \<Rightarrow> (error \<times> conn) + conn" where
  "index_changelog product changelog cur =
     and_then (index_changelog_records product changelog [] cur) (\<lambda>(summaries, cur).
     index_changelog_summaries product summaries cur)"

subsection \<open>\<^verbatim>\<open>index_main\<close>\<close>

text \<open>
  The primary store: \<^verbatim>\<open>db.ids.load()\<close>, \<^verbatim>\<open>db.product.load(id)\<close> and
  \<^verbatim>\<open>db.changelog.load(id)\<close>; the loaders return \<^verbatim>\<open>None\<close> for what the store does not
  hold.
\<close>

record db =
  ids_load :: "int list"
  product_load :: "int \<Rightarrow> Product option"
  changelog_load :: "int \<Rightarrow> ChangeRecord list option"

text \<open>The loop over the ids (lines 141 to 153).\<close>

fun index_ids ::
  "normalization \<Rightarrow> db \<Rightarrow> int \<Rightarrow> int list \<Rightarrow> conn \<Rightarrow> (error \<times> conn) + conn" where
  "index_ids nz db num_ids [] cur = Inr cur"
| "index_ids nz db num_ids (i # rest) cur =
     (case product_load db i of
        None \<Rightarrow> index_ids nz db num_ids rest cur
      | Some product \<Rightarrow>
          and_then (index_product nz product cur num_ids) (\<lambda>cur.
          (case changelog_load db i of
             None \<Rightarrow> index_ids nz db num_ids rest cur
           | Some changelog \<Rightarrow>
               and_then (index_changelog product changelog cur) (\<lambda>cur.
               index_ids nz db num_ids rest cur))))"

text \<open>Lines 135 to 155: from \<^verbatim>\<open>BEGIN TRANSACTION\<close> to \<^verbatim>\<open>END TRANSACTION\<close>.\<close>

definition rebuild :: "normalization \<Rightarrow> db \<Rightarrow> int list \<Rightarrow> conn \<Rightarrow> (error \<times> conn) + conn" where
  "rebuild nz db ids cur =
     and_then (execute BEGIN_TRANSACTION cur) (\<lambda>cur.
     and_then (execute (DELETE_FROM Products) cur) (\<lambda>cur.
     and_then (execute (DELETE_FROM Changelog) cur) (\<lambda>cur.
     and_then (execute (DELETE_FROM ChangelogSummary) cur) (\<lambda>cur.
     and_then (index_ids nz db (int (length ids)) ids cur) (\<lambda>cur.
     execute END_TRANSACTION cur)))))"

text \<open>
  \<^verbatim>\<open>aiosqlite.connect\<close>: a file that does not exist yet (\<open>None\<close>) is a database
  without tables.
\<close>

definition connect :: "tables option \<Rightarrow> nat option \<Rightarrow> conn" where
  "connect file budget =
     \<lparr>persisted = (case file of None \<Rightarrow> no_tables | Some t \<Rightarrow> t),
      txn = None,
      io_budget = budget\<rparr>"

text \<open>
  The whole of \<^verbatim>\<open>index_main\<close>; the three numbers are the row counts that it prints.
\<close>

definition index_main ::
  "normalization \<Rightarrow> db \<Rightarrow> tables option \<Rightarrow> nat option
     \<Rightarrow> (error \<times> conn) + ((int \<times> int \<times> int) \<times> conn)" where
  "index_main nz db file budget =
     (let ids = ids_load db;
          need_create = (case file of None \<Rightarrow> True | Some t \<Rightarrow> False);
          cur = connect file budget
      in
        and_then (if need_create then init_db cur else Inr cur) (\<lambda>cur.
        and_then (rebuild nz db ids cur) (\<lambda>cur.
        and_then (count_rows cur Products) (\<lambda>(n_products, cur).
        and_then (count_rows cur Changelog) (\<lambda>(n_changelog, cur).
        and_then (count_rows cur ChangelogSummary) (\<lambda>(n_summary, cur).
        Inr ((n_products, n_changelog, n_summary), cur)))))))"

subsection \<open>Sample data\<close>

text \<open>Concrete inputs on which the model is run.\<close>

definition sample_nz :: normalization where
  "sample_nz = \<lparr>compress_systems = (\<lambda>s. concat (map (take 1) (sorted_list_of_set s))),
                 normalize_search = (\<lambda>t. t)\<rparr>"

definition sample_product :: "int \<Rightarrow> int option \<Rightarrow> Product" where
  "sample_product i r =
     \<lparr>prod_id = i, title = ''Gothic'', image_logo = ''gothic.png'', prod_type = ''game'',
      comp_systems = {''windows''}, rank_bestselling = r\<rparr>"

definition sample_download ::
  "datetime \<Rightarrow> BonusDownload option \<Rightarrow> BonusDownload option \<Rightarrow> ChangeRecord" where
  "sample_download ts new old =
     \<lparr>product_id = 1, timestamp = ts, action = ''change'', category = ''download'',
      download_record = Some \<lparr>dl_type = ''bonus'', dl_new_bonus = new, dl_old_bonus = old\<rparr>,
      property_record = None\<rparr>"

definition sample_property :: "datetime \<Rightarrow> ChangeRecord" where
  "sample_property ts =
     \<lparr>product_id = 1, timestamp = ts, action = ''change'', category = ''property'',
      download_record = None,
      property_record = Some \<lparr>property_name = ''title''\<rparr>\<rparr>"

definition sample_record :: "string \<Rightarrow> ChangeRecord" where
  "sample_record cat =
     \<lparr>product_id = 1, timestamp = 100, action = ''add'', category = cat,
      download_record = None, property_record = None\<rparr>"

definition sample_index :: tables where
  "sample_index =
     \<lparr>t_products = Some [product_row_of sample_nz (sample_product 9 None) 1],
      t_changelog = Some [],
      t_changelog_summary = Some [],
      t_indexes = [''idx_products_sale_rank'', ''idx_changelog_timestamp'',
                   ''idx_summary_timestamp'']\<rparr>"

text \<open>
  The scenario of section 8 of the specification: ids 1, 2 and 3, product 2 absent,
  products 1 and 3 with the bestseller ranks 1 and 2; only product 1 has a changelog.
\<close>

definition sample_db :: "ChangeRecord list \<Rightarrow> db" where
  "sample_db cl =
     \<lparr>ids_load = [1, 2, 3],
      product_load = (\<lambda>i. if i = 1 then Some (sample_product 1 (Some 1))
                           else if i = 3 then Some (sample_product 3 (Some 2)) else None),
      changelog_load = (\<lambda>i. if i = 1 then Some cl else None)\<rparr>"

subsection \<open>Notions used in the proofs\<close>

text \<open>
  \<open>keeps P g r\<close>: the step with result \<open>r\<close> ran inside a transaction over the file
  contents \<open>P\<close> and left them alone, whether it raised or returned (\<open>g\<close> takes the
  connection out of what it returned).
\<close>

definition keeps :: "tables \<Rightarrow> ('a \<Rightarrow> conn) \<Rightarrow> (error \<times> conn) + 'a \<Rightarrow> bool" where
  "keeps P g r =
     (case r of
        Inl (e, c) \<Rightarrow> persisted c = P
      | Inr x \<Rightarrow> persisted (g x) = P \<and> txn (g x) \<noteq> None)"

text \<open>One turn of the first loop of \<^verbatim>\<open>index_changelog\<close> on the dictionary.\<close>

abbreviation (input) summaries_step :: "summaries \<Rightarrow> ChangeRecord \<Rightarrow> summaries" where
  "summaries_step \<equiv> (\<lambda>s r. summaries_add (timestamp r) (category r) s)"

text \<open>
  Two connections that see the same tables and are both inside, or both outside, a
  transaction.
\<close>

definition same_view :: "conn \<Rightarrow> conn \<Rightarrow> bool" where
  "same_view c d = (visible c = visible d \<and> (txn c = None) = (txn d = None))"

text \<open>What inserting and deleting rows leaves alone: which tables and indexes exist.\<close>

definition schema :: "tables \<Rightarrow> bool \<times> bool \<times> bool \<times> string list" where
  "schema t = (t_products t \<noteq> None, t_changelog t \<noteq> None, t_changelog_summary t \<noteq> None,
               t_indexes t)"

text \<open>The three tables, empty.\<close>

definition cleared :: "string list \<Rightarrow> tables" where
  "cleared ixs = \<lparr>t_products = Some [], t_changelog = Some [], t_changelog_summary = Some [],
                  t_indexes = ixs\<rparr>"

text \<open>The first four statements of the rebuild (lines 135 to 138).\<close>

definition begin_clear :: "conn \<Rightarrow> (error \<times> conn) + conn" where
  "begin_clear cur =
     and_then (execute BEGIN_TRANSACTION cur) (\<lambda>cur.
     and_then (execute (DELETE_FROM Products) cur) (\<lambda>cur.
     and_then (execute (DELETE_FROM Changelog) cur) (\<lambda>cur.
     execute (DELETE_FROM ChangelogSummary) cur)))"




text \<open>The equations that run the model on the sample data.\<close>

lemmas run_defs = rebuild_def index_main_def and_then_def execute_def connect_def visible_def
  index_product_def index_changelog_def index_change_def init_db_def count_rows_def
  sample_db_def sample_index_def sample_record_def sample_product_def no_tables_def
  sample_download_def sample_property_def

section \<open>Sale rank\<close>

text \<open>
  C2. For every product and every id count \<open>N\<close>, the row that \<^verbatim>\<open>index_product\<close>
  inserts has sale rank \<open>N - r + 1\<close> when the product has the bestseller rank \<open>r\<close> (so
  rank 1 gives \<open>N\<close>), and sale rank 0 when the product has no bestseller rank.
\<close>

theorem sale_rank_formula:
  "(rank_bestselling product = Some r \<longrightarrow>
      p_sale_rank (product_row_of nz product num_ids) = num_ids - r + 1) \<and>
   (rank_bestselling product = Some 1 \<longrightarrow>
      p_sale_rank (product_row_of nz product num_ids) = num_ids) \<and>
   (rank_bestselling product = None \<longrightarrow>
      p_sale_rank (product_row_of nz product num_ids) = 0) \<and>
   index_product nz product cur num_ids =
      execute (INSERT_INTO_products (product_row_of nz product num_ids)) cur"
  by (simp add: product_row_of_def sale_rank_def index_product_def)

theorem sale_rank_formula_witness:
  "p_sale_rank (product_row_of sample_nz (sample_product 7 (Some 1)) 3) = 3 \<and>
   p_sale_rank (product_row_of sample_nz (sample_product 8 (Some 2)) 3) = 2 \<and>
   p_sale_rank (product_row_of sample_nz (sample_product 9 None) 3) = 0"
  using sale_rank_formula [of "sample_product 7 (Some 1)" 1 sample_nz 3]
    sale_rank_formula [of "sample_product 8 (Some 2)" 2 sample_nz 3]
    sale_rank_formula [of "sample_product 9 None" 0 sample_nz 3]
  by (simp add: sample_product_def)

section \<open>The category-specific columns of a changelog row\<close>

text \<open>
  C6. For every change record of category \<^verbatim>\<open>download\<close> whose new bonus and old bonus
  are both present, the projection succeeds and the \<^verbatim>\<open>bonus_type\<close> column of the row
  is the bonus type of the old bonus: it is assigned last.
\<close>

theorem bonus_type_old_written_last:
  assumes "category changerec = ''download''"
    and "download_record changerec = Some dl"
    and "dl_new_bonus dl = Some nb"
    and "dl_old_bonus dl = Some ob"
  shows "\<exists>idx. index_change product changerec = Inr idx \<and>
           c_bonus_type (changelog_row_of idx) = Some (bonus_type ob)"
  using assms by (simp add: index_change_def changelog_row_of_def)

theorem bonus_type_old_written_last_witness:
  "\<exists>idx. index_change (sample_product 1 None)
            (sample_download 100 (Some \<lparr>bonus_type = ''manuals''\<rparr>)
               (Some \<lparr>bonus_type = ''wallpapers''\<rparr>)) = Inr idx \<and>
         c_bonus_type (changelog_row_of idx) = Some ''wallpapers''"
  using bonus_type_old_written_last
    [of "sample_download 100 (Some \<lparr>bonus_type = ''manuals''\<rparr>)
           (Some \<lparr>bonus_type = ''wallpapers''\<rparr>)"
        "\<lparr>dl_type = ''bonus'', dl_new_bonus = Some \<lparr>bonus_type = ''manuals''\<rparr>,
          dl_old_bonus = Some \<lparr>bonus_type = ''wallpapers''\<rparr>\<rparr>"
        "\<lparr>bonus_type = ''manuals''\<rparr>" "\<lparr>bonus_type = ''wallpapers''\<rparr>"
        "sample_product 1 None"]
  by (simp add: sample_download_def)

text \<open>
  C10. For every change record of category \<^verbatim>\<open>download\<close> (with its payload), the
  \<^verbatim>\<open>dl_type\<close> column is the download type of the payload; when exactly one of the two
  bonuses is present the \<^verbatim>\<open>bonus_type\<close> column is that bonus's type, and when neither
  is present it is null.
\<close>

theorem bonus_type_of_the_present_bonus:
  assumes "category changerec = ''download''"
    and "download_record changerec = Some dl"
  shows "\<exists>idx. index_change product changerec = Inr idx \<and>
           c_dl_type (changelog_row_of idx) = Some (dl_type dl) \<and>
           (\<forall>b. dl_new_bonus dl = Some b \<and> dl_old_bonus dl = None \<longrightarrow>
              c_bonus_type (changelog_row_of idx) = Some (bonus_type b)) \<and>
           (\<forall>b. dl_new_bonus dl = None \<and> dl_old_bonus dl = Some b \<longrightarrow>
              c_bonus_type (changelog_row_of idx) = Some (bonus_type b)) \<and>
           (dl_new_bonus dl = None \<and> dl_old_bonus dl = None \<longrightarrow>
              c_bonus_type (changelog_row_of idx) = None)"
  using assms
  by (cases "dl_new_bonus dl"; cases "dl_old_bonus dl")
     (simp_all add: index_change_def changelog_row_of_def)

theorem bonus_type_of_the_present_bonus_witness:
  "(\<exists>idx. index_change (sample_product 1 None)
             (sample_download 100 (Some \<lparr>bonus_type = ''manuals''\<rparr>) None) = Inr idx \<and>
          c_dl_type (changelog_row_of idx) = Some ''bonus'' \<and>
          c_bonus_type (changelog_row_of idx) = Some ''manuals'') \<and>
   (\<exists>idx. index_change (sample_product 1 None)
             (sample_download 100 None (Some \<lparr>bonus_type = ''wallpapers''\<rparr>)) = Inr idx \<and>
          c_dl_type (changelog_row_of idx) = Some ''bonus'' \<and>
          c_bonus_type (changelog_row_of idx) = Some ''wallpapers'') \<and>
   (\<exists>idx. index_change (sample_product 1 None) (sample_download 100 None None) = Inr idx \<and>
          c_dl_type (changelog_row_of idx) = Some ''bonus'' \<and>
          c_bonus_type (changelog_row_of idx) = None)"
  using bonus_type_of_the_present_bonus
    [of "sample_download 100 (Some \<lparr>bonus_type = ''manuals''\<rparr>) None"
        "\<lparr>dl_type = ''bonus'', dl_new_bonus = Some \<lparr>bonus_type = ''manuals''\<rparr>,
          dl_old_bonus = None\<rparr>" "sample_product 1 None"]
    bonus_type_of_the_present_bonus
    [of "sample_download 100 None (Some \<lparr>bonus_type = ''wallpapers''\<rparr>)"
        "\<lparr>dl_type = ''bonus'', dl_new_bonus = None,
          dl_old_bonus = Some \<lparr>bonus_type = ''wallpapers''\<rparr>\<rparr>" "sample_product 1 None"]
    bonus_type_of_the_present_bonus
    [of "sample_download 100 None None"
        "\<lparr>dl_type = ''bonus'', dl_new_bonus = None, dl_old_bonus = None\<rparr>"
        "sample_product 1 None"]
  by (simp add: sample_download_def)

section \<open>Steps in sequence and single statements\<close>

lemma and_then_Inl [simp]: "and_then (Inl e) f = Inl e"
  by (simp add: and_then_def)

lemma and_then_Inr [simp]: "and_then (Inr x) f = f x"
  by (simp add: and_then_def)

lemma and_then_assoc: "and_then (and_then r f) g = and_then r (\<lambda>x. and_then (f x) g)"
  by (cases r) simp_all

lemma and_then_eq_Inr:
  "and_then r f = Inr y \<longleftrightarrow> (\<exists>x. r = Inr x \<and> f x = Inr y)"
  by (cases r) simp_all

lemma and_then_eq_Inl:
  "and_then r f = Inl e \<longleftrightarrow> r = Inl e \<or> (\<exists>x. r = Inr x \<and> f x = Inl e)"
  by (cases r) simp_all

lemma execute_Inl:
  assumes "execute s c = Inl (e, c')"
  shows "persisted c' = persisted c \<and> txn c' = txn c \<and> e = StoreIOError"
  using assms
  by (auto simp add: execute_def Let_def split: if_splits statement.splits option.splits)

lemma execute_Inr_data:
  assumes "execute s c = Inr c'" and "s \<noteq> BEGIN_TRANSACTION" and "s \<noteq> END_TRANSACTION"
  shows "run_statement s (visible c) = Some (visible c') \<and>
         (txn c' = None \<longleftrightarrow> txn c = None) \<and>
         (txn c \<noteq> None \<longrightarrow> persisted c' = persisted c) \<and>
         io_budget c \<noteq> Some 0 \<and>
         io_budget c' = map_option (\<lambda>n. n - 1) (io_budget c)"
  using assms
  by (cases s)
     (auto simp add: execute_def Let_def visible_def split: if_splits option.splits)

lemma execute_data:
  assumes "io_budget c \<noteq> Some 0" and "run_statement s (visible c) = Some t"
  shows "\<exists>c'. execute s c = Inr c' \<and> visible c' = t \<and>
           (txn c' = None \<longleftrightarrow> txn c = None) \<and>
           io_budget c' = map_option (\<lambda>n. n - 1) (io_budget c)"
  using assms
  by (cases s)
     (auto simp add: execute_def Let_def visible_def split: if_splits option.splits)

lemma keeps_execute:
  assumes "persisted c = P" and "txn c \<noteq> None"
    and "s \<noteq> BEGIN_TRANSACTION" and "s \<noteq> END_TRANSACTION"
  shows "keeps P (\<lambda>c. c) (execute s c)"
proof (cases "execute s c")
  case (Inl a)
  then obtain e c' where "execute s c = Inl (e, c')" by (cases a) simp
  with execute_Inl [OF this] assms show ?thesis by (simp add: keeps_def)
next
  case (Inr c')
  with execute_Inr_data [OF Inr assms(3,4)] assms show ?thesis by (simp add: keeps_def)
qed

lemma keeps_and_then:
  assumes "keeps P g r"
    and "\<And>x. persisted (g x) = P \<Longrightarrow> txn (g x) \<noteq> None \<Longrightarrow> keeps P h (f x)"
  shows "keeps P h (and_then r f)"
  using assms by (cases r) (auto simp add: keeps_def)

lemma keeps_index_product:
  "persisted c = P \<Longrightarrow> txn c \<noteq> None \<Longrightarrow> keeps P (\<lambda>c. c) (index_product nz p c n)"
  by (simp add: index_product_def keeps_execute)

lemma keeps_records:
  "persisted c = P \<Longrightarrow> txn c \<noteq> None \<Longrightarrow> keeps P snd (index_changelog_records p cl s c)"
proof (induction cl arbitrary: s c)
  case Nil
  then show ?case by (simp add: keeps_def)
next
  case (Cons r cl)
  show ?case
  proof (cases "index_change p r")
    case (Inl e)
    with Cons.prems show ?thesis by (simp add: keeps_def)
  next
    case (Inr idx)
    have "keeps P snd (and_then (execute (INSERT_INTO_changelog (changelog_row_of idx)) c)
            (\<lambda>cur. index_changelog_records p cl
               (summaries_add (timestamp r) (category r) s) cur))"
      by (rule keeps_and_then [where g = "\<lambda>c. c"])
         (simp_all add: keeps_execute Cons.prems Cons.IH)
    with Inr show ?thesis by simp
  qed
qed

lemma keeps_summaries:
  "persisted c = P \<Longrightarrow> txn c \<noteq> None \<Longrightarrow> keeps P (\<lambda>c. c) (index_changelog_summaries p items c)"
proof (induction items arbitrary: c)
  case Nil
  then show ?case by (simp add: keeps_def)
next
  case (Cons item items)
  have "keeps P (\<lambda>c. c) (and_then (execute (INSERT_INTO_changelog_summary (summary_row_of p item)) c)
          (\<lambda>cur. index_changelog_summaries p items cur))"
    by (rule keeps_and_then [where g = "\<lambda>c. c"])
       (simp_all add: keeps_execute Cons.prems Cons.IH)
  then show ?case by simp
qed

lemma keeps_index_changelog:
  assumes "persisted c = P" and "txn c \<noteq> None"
  shows "keeps P (\<lambda>c. c) (index_changelog p cl c)"
  unfolding index_changelog_def
  by (rule keeps_and_then [where g = snd])
     (auto simp add: keeps_records assms keeps_summaries split: prod.splits)

lemma keeps_index_ids:
  "persisted c = P \<Longrightarrow> txn c \<noteq> None \<Longrightarrow> keeps P (\<lambda>c. c) (index_ids nz db n ids c)"
proof (induction ids arbitrary: c)
  case Nil
  then show ?case by (simp add: keeps_def)
next
  case (Cons i ids)
  show ?case
  proof (cases "product_load db i")
    case None
    with Cons show ?thesis by simp
  next
    case (Some p)
    have "keeps P (\<lambda>c. c) (and_then (index_product nz p c n) (\<lambda>cur.
            (case changelog_load db i of
               None \<Rightarrow> index_ids nz db n ids cur
             | Some changelog \<Rightarrow>
                 and_then (index_changelog p changelog cur) (\<lambda>cur.
                 index_ids nz db n ids cur))))"
    proof (rule keeps_and_then [where g = "\<lambda>c. c"])
      show "keeps P (\<lambda>c. c) (index_product nz p c n)"
        by (simp add: keeps_index_product Cons.prems)
    next
      fix x :: conn assume x: "persisted x = P" "txn x \<noteq> None"
      show "keeps P (\<lambda>c. c) (case changelog_load db i of
               None \<Rightarrow> index_ids nz db n ids x
             | Some changelog \<Rightarrow>
                 and_then (index_changelog p changelog x) (\<lambda>cur.
                 index_ids nz db n ids cur))"
      proof (cases "changelog_load db i")
        case None
        with x Cons.IH show ?thesis by simp
      next
        case (Some cl)
        have "keeps P (\<lambda>c. c) (and_then (index_changelog p cl x) (\<lambda>cur. index_ids nz db n ids cur))"
          by (rule keeps_and_then [where g = "\<lambda>c. c"])
             (use x in \<open>simp_all add: keeps_index_changelog Cons.IH\<close>)
        with Some show ?thesis by simp
      qed
    qed
    with Some show ?thesis by simp
  qed
qed

section \<open>The rebuild is one transaction\<close>

text \<open>
  C1. From \<^verbatim>\<open>BEGIN TRANSACTION\<close> to \<^verbatim>\<open>END TRANSACTION\<close> the rebuild is one
  transaction: whatever fails on the way (a statement of the store at any point, the
  commit itself, or the projection of a record), the file still holds what it held
  before the rebuild, so no cleared or partly filled table is ever persisted; and when
  the rebuild returns, the transaction is closed.
\<close>

theorem rebuild_is_one_transaction:
  "case rebuild nz db ids cur of
     Inl (e, cur') \<Rightarrow> persisted cur' = persisted cur
   | Inr cur' \<Rightarrow> txn cur' = None \<and> txn cur = None"
proof (cases "execute BEGIN_TRANSACTION cur")
  case (Inl a)
  then obtain e c' where *: "execute BEGIN_TRANSACTION cur = Inl (e, c')" by (cases a) simp
  from execute_Inl [OF *] * show ?thesis by (simp add: rebuild_def)
next
  case (Inr c1)
  then have c1: "persisted c1 = persisted cur" "txn c1 \<noteq> None" "txn cur = None"
    by (auto simp add: execute_def Let_def split: if_splits option.splits)
  let ?P = "persisted cur"
  have k: "keeps ?P (\<lambda>c. c)
     (and_then (execute (DELETE_FROM Products) c1) (\<lambda>cur.
      and_then (execute (DELETE_FROM Changelog) cur) (\<lambda>cur.
      and_then (execute (DELETE_FROM ChangelogSummary) cur) (\<lambda>cur.
      index_ids nz db (int (length ids)) ids cur))))"
    by (intro keeps_and_then [where g = "\<lambda>c. c" and h = "\<lambda>c. c"] keeps_execute keeps_index_ids c1)
       simp_all
  have r: "rebuild nz db ids cur =
     and_then (and_then (execute (DELETE_FROM Products) c1) (\<lambda>cur.
      and_then (execute (DELETE_FROM Changelog) cur) (\<lambda>cur.
      and_then (execute (DELETE_FROM ChangelogSummary) cur) (\<lambda>cur.
      index_ids nz db (int (length ids)) ids cur)))) (execute END_TRANSACTION)"
    by (simp add: rebuild_def Inr and_then_assoc)
  show ?thesis
  proof (cases "and_then (execute (DELETE_FROM Products) c1) (\<lambda>cur.
      and_then (execute (DELETE_FROM Changelog) cur) (\<lambda>cur.
      and_then (execute (DELETE_FROM ChangelogSummary) cur) (\<lambda>cur.
      index_ids nz db (int (length ids)) ids cur)))")
    case (Inl a)
    with k r show ?thesis by (auto simp add: keeps_def split: prod.splits)
  next
    case (Inr c2)
    with k have c2: "persisted c2 = ?P" "txn c2 \<noteq> None" by (simp_all add: keeps_def)
    show ?thesis
    proof (cases "execute END_TRANSACTION c2")
      case (Inl a)
      then obtain e c' where *: "execute END_TRANSACTION c2 = Inl (e, c')" by (cases a) simp
      from execute_Inl [OF *] * c2 r Inr show ?thesis by simp
    next
      case (Inr c3)
      then have "txn c3 = None"
        by (auto simp add: execute_def Let_def split: if_splits option.splits)
      with Inr r \<open>_ = Inr c2\<close> c1 show ?thesis by simp
    qed
  qed
qed

theorem rebuild_is_one_transaction_witness:
  "(\<exists>e c. rebuild sample_nz (sample_db [sample_download 5 None None, sample_property 5])
             [1, 2, 3] (connect (Some sample_index) (Some 7)) = Inl (e, c) \<and>
          persisted c = sample_index) \<and>
   (\<exists>c. rebuild sample_nz (sample_db [sample_download 5 None None, sample_property 5])
           [1, 2, 3] (connect (Some sample_index) None) = Inr c \<and> txn c = None)"
  using rebuild_is_one_transaction
      [where nz = sample_nz
         and db = "sample_db [sample_download 5 None None, sample_property 5]"
         and ids = "[1, 2, 3]" and cur = "connect (Some sample_index) (Some 7)"]
    rebuild_is_one_transaction
      [where nz = sample_nz
         and db = "sample_db [sample_download 5 None None, sample_property 5]"
         and ids = "[1, 2, 3]" and cur = "connect (Some sample_index) None"]
  by (simp add: run_defs)

section \<open>Ids without a product, products without a changelog\<close>

lemma and_then_cong_right:
  "(\<And>x. f x = g x) \<Longrightarrow> and_then r f = and_then r g"
  by (cases r) simp_all

lemma index_ids_append:
  "index_ids nz db n (xs @ ys) cur = and_then (index_ids nz db n xs cur) (index_ids nz db n ys)"
proof (induction xs arbitrary: cur)
  case Nil
  show ?case by simp
next
  case (Cons i xs)
  have IH: "index_ids nz db n (xs @ ys) =
              (\<lambda>c. and_then (index_ids nz db n xs c) (index_ids nz db n ys))"
    by (rule ext) (rule Cons.IH)
  show ?case
  proof (cases "product_load db i")
    case None
    then show ?thesis by (simp add: Cons.IH)
  next
    case (Some p)
    show ?thesis
    proof (cases "changelog_load db i")
      case None
      with Some show ?thesis
        by (simp add: and_then_assoc IH)
    next
      case (Some cl)
      with \<open>product_load db i = Some p\<close> show ?thesis
        by (simp add: and_then_assoc IH)
    qed
  qed
qed

text \<open>
  C3. An id whose product the store does not hold is skipped: handling it inserts no
  row and does not fail (the connection is returned as it was), and the loop goes on
  with the ids after it, so that the id could as well be left out of the list.
\<close>

theorem absent_product_is_skipped:
  assumes "product_load db i = None"
  shows "index_ids nz db n [i] cur = Inr cur \<and>
         index_ids nz db n (i # rest) cur = index_ids nz db n rest cur \<and>
         index_ids nz db n (before @ i # rest) cur = index_ids nz db n (before @ rest) cur"
proof -
  have "index_ids nz db n (i # rest) c = index_ids nz db n rest c" for c
    using assms by simp
  then have "and_then (index_ids nz db n before cur) (index_ids nz db n (i # rest)) =
             and_then (index_ids nz db n before cur) (index_ids nz db n rest)"
    by (rule and_then_cong_right)
  then show ?thesis
    using assms by (simp add: index_ids_append)
qed

theorem absent_product_is_skipped_witness:
  "product_load (sample_db []) 2 = None \<and>
   index_ids sample_nz (sample_db []) 3 [2] (connect (Some sample_index) None) =
     Inr (connect (Some sample_index) None) \<and>
   index_ids sample_nz (sample_db []) 3 ([1] @ 2 # [3]) (connect (Some sample_index) None) =
     index_ids sample_nz (sample_db []) 3 ([1] @ [3]) (connect (Some sample_index) None)"
  using absent_product_is_skipped
      [where db = "sample_db []" and i = 2 and nz = sample_nz and n = 3
         and cur = "connect (Some sample_index) None" and rest = "[3]" and before = "[1]"]
  by (simp add: sample_db_def)

text \<open>
  C7. An id whose product is present and whose changelog the store does not hold: its
  product row is inserted (when the store takes the statement), with the product's
  own id, title, logo, type, compressed systems, sale rank and search title in its
  columns; the changelog and the summary table stay as they are, and the loop goes on
  with the ids after it.
\<close>

theorem absent_changelog_keeps_product_row:
  assumes "product_load db i = Some product"
    and "changelog_load db i = None"
    and "t_products (visible cur) = Some rows"
    and "io_budget cur \<noteq> Some 0"
  shows "\<exists>cur'. index_ids nz db n [i] cur = Inr cur' \<and>
           t_products (visible cur') = Some (rows @ [product_row_of nz product n]) \<and>
           t_products (visible cur') =
             Some (rows @
               [\<lparr>p_product_id = prod_id product,
                 p_title = title product,
                 p_image_logo = image_logo product,
                 p_product_type = prod_type product,
                 p_comp_systems = compress_systems nz (comp_systems product),
                 p_sale_rank = (case rank_bestselling product of
                                  Some r \<Rightarrow> n - r + 1 | None \<Rightarrow> 0),
                 p_search_title = normalize_search nz (title product)\<rparr>]) \<and>
           t_changelog (visible cur') = t_changelog (visible cur) \<and>
           t_changelog_summary (visible cur') = t_changelog_summary (visible cur) \<and>
           index_ids nz db n (i # rest) cur = index_ids nz db n rest cur'"
proof -
  let ?r = "product_row_of nz product n"
  have row: "?r =
     \<lparr>p_product_id = prod_id product,
      p_title = title product,
      p_image_logo = image_logo product,
      p_product_type = prod_type product,
      p_comp_systems = compress_systems nz (comp_systems product),
      p_sale_rank = (case rank_bestselling product of Some r \<Rightarrow> n - r + 1 | None \<Rightarrow> 0),
      p_search_title = normalize_search nz (title product)\<rparr>"
    by (simp add: product_row_of_def sale_rank_def)
  have "run_statement (INSERT_INTO_products ?r) (visible cur) =
          Some ((visible cur)\<lparr>t_products := Some (rows @ [?r])\<rparr>)"
    using assms(3) by simp
  from execute_data [OF assms(4) this]
  obtain cur' where c: "execute (INSERT_INTO_products ?r) cur = Inr cur'"
    "visible cur' = (visible cur)\<lparr>t_products := Some (rows @ [?r])\<rparr>"
    by blast
  from c have "index_ids nz db n [i] cur = Inr cur'"
    and "t_products (visible cur') = Some (rows @ [?r])"
    and "t_changelog (visible cur') = t_changelog (visible cur)"
    and "t_changelog_summary (visible cur') = t_changelog_summary (visible cur)"
    and "index_ids nz db n (i # rest) cur = index_ids nz db n rest cur'"
    using assms(1,2) by (simp_all add: index_product_def)
  then show ?thesis
    using row by metis
qed

theorem absent_changelog_keeps_product_row_witness:
  "\<exists>cur'. index_ids sample_nz (sample_db []) 3 [3] (connect (Some sample_index) None) = Inr cur' \<and>
     t_products (visible cur') =
       Some [\<lparr>p_product_id = 9, p_title = ''Gothic'', p_image_logo = ''gothic.png'',
              p_product_type = ''game'', p_comp_systems = ''w'', p_sale_rank = 0,
              p_search_title = ''Gothic''\<rparr>,
             \<lparr>p_product_id = 3, p_title = ''Gothic'', p_image_logo = ''gothic.png'',
              p_product_type = ''game'', p_comp_systems = ''w'', p_sale_rank = 2,
              p_search_title = ''Gothic''\<rparr>] \<and>
     t_changelog (visible cur') = Some [] \<and>
     t_changelog_summary (visible cur') = Some []"
proof -
  let ?c = "connect (Some sample_index) None"
  let ?old = "\<lparr>p_product_id = 9, p_title = ''Gothic'', p_image_logo = ''gothic.png'',
              p_product_type = ''game'', p_comp_systems = ''w'', p_sale_rank = 0,
              p_search_title = ''Gothic''\<rparr>"
  have 1: "product_load (sample_db []) 3 = Some (sample_product 3 (Some 2))"
    by (simp add: sample_db_def)
  have 2: "changelog_load (sample_db []) 3 = None"
    by (simp add: sample_db_def)
  have 3: "t_products (visible ?c) = Some [?old]"
    by (simp add: connect_def visible_def sample_index_def product_row_of_def sale_rank_def
          sample_nz_def sample_product_def)
  have 4: "io_budget ?c \<noteq> Some 0"
    by (simp add: connect_def)
  have 5: "t_changelog (visible ?c) = Some []" "t_changelog_summary (visible ?c) = Some []"
    by (simp_all add: connect_def visible_def sample_index_def)
  from absent_changelog_keeps_product_row [OF 1 2 3 4, where nz = sample_nz and n = 3]
  obtain cur' where "index_ids sample_nz (sample_db []) 3 [3] ?c = Inr cur'"
    and "t_products (visible cur') =
           Some ([?old] @
             [\<lparr>p_product_id = prod_id (sample_product 3 (Some 2)),
               p_title = title (sample_product 3 (Some 2)),
               p_image_logo = image_logo (sample_product 3 (Some 2)),
               p_product_type = prod_type (sample_product 3 (Some 2)),
               p_comp_systems =
                 compress_systems sample_nz (comp_systems (sample_product 3 (Some 2))),
               p_sale_rank = (case rank_bestselling (sample_product 3 (Some 2)) of
                                Some r \<Rightarrow> 3 - r + 1 | None \<Rightarrow> 0),
               p_search_title = normalize_search sample_nz (title (sample_product 3 (Some 2)))\<rparr>])"
    and "t_changelog (visible cur') = t_changelog (visible ?c)"
    and "t_changelog_summary (visible cur') = t_changelog_summary (visible ?c)"
    by blast
  with 5 show ?thesis
    by (intro exI [where x = cur']) (simp add: sample_nz_def sample_product_def)
qed

section \<open>Summary rows\<close>

lemma execute_insert_changelog:
  assumes "execute (INSERT_INTO_changelog r) c = Inr c'"
  shows "\<exists>rs. t_changelog (visible c) = Some rs \<and>
           visible c' = (visible c)\<lparr>t_changelog := Some (rs @ [r])\<rparr>"
proof -
  from execute_Inr_data [OF assms]
  have "run_statement (INSERT_INTO_changelog r) (visible c) = Some (visible c')" by simp
  then show ?thesis by (auto split: option.splits)
qed

lemma execute_insert_summary:
  assumes "execute (INSERT_INTO_changelog_summary r) c = Inr c'"
  shows "\<exists>rs. t_changelog_summary (visible c) = Some rs \<and>
           visible c' = (visible c)\<lparr>t_changelog_summary := Some (rs @ [r])\<rparr>"
proof -
  from execute_Inr_data [OF assms]
  have "run_statement (INSERT_INTO_changelog_summary r) (visible c) = Some (visible c')" by simp
  then show ?thesis by (auto split: option.splits)
qed

lemma records_Inr:
  assumes "index_changelog_records p cl s c = Inr (s', c')"
  shows "s' = foldl (\<lambda>s r. summaries_add (timestamp r) (category r) s) s cl \<and>
         t_changelog_summary (visible c') = t_changelog_summary (visible c) \<and>
         t_products (visible c') = t_products (visible c)"
  using assms
proof (induction cl arbitrary: s c)
  case Nil
  then show ?case by simp
next
  case (Cons r cl)
  from Cons.prems obtain idx where idx: "index_change p r = Inr idx"
    by (cases "index_change p r") simp_all
  with Cons.prems obtain c1 where
    c1: "execute (INSERT_INTO_changelog (changelog_row_of idx)) c = Inr c1"
    and rest: "index_changelog_records p cl (summaries_add (timestamp r) (category r) s) c1
                 = Inr (s', c')"
    by (auto simp add: and_then_eq_Inr)
  from execute_insert_changelog [OF c1] Cons.IH [OF rest]
  show ?case by auto
qed

lemma summaries_Inr:
  assumes "index_changelog_summaries p items c = Inr c'"
  shows "t_changelog_summary (visible c') =
           map_option (\<lambda>old. old @ map (summary_row_of p) items) (t_changelog_summary (visible c))"
  using assms
proof (induction items arbitrary: c)
  case Nil
  then show ?case by (simp add: option.map_ident)
next
  case (Cons item items)
  from Cons.prems obtain c1 where
    c1: "execute (INSERT_INTO_changelog_summary (summary_row_of p item)) c = Inr c1"
    and rest: "index_changelog_summaries p items c1 = Inr c'"
    by (auto simp add: and_then_eq_Inr)
  from execute_insert_summary [OF c1] Cons.IH [OF rest]
  show ?case by auto
qed

lemma summaries_add_keys:
  "fst ` set (summaries_add ts cat s) = insert ts (fst ` set s)"
  by (induction ts cat s rule: summaries_add.induct) auto

lemma summaries_add_distinct:
  "distinct (map fst s) \<Longrightarrow> distinct (map fst (summaries_add ts cat s))"
proof (induction s)
  case Nil
  then show ?case by simp
next
  case (Cons a s)
  obtain k v where a: "a = (k, v)" by (cases a)
  from Cons a have "ts \<noteq> k \<Longrightarrow> k \<notin> fst ` set (summaries_add ts cat s)"
    by (simp add: summaries_add_keys image_iff)
  with Cons a show ?case by (auto simp add: image_iff)
qed

lemma summaries_add_map_of:
  "map_of (summaries_add ts cat s) =
     (map_of s)(ts \<mapsto> insert cat (case map_of s ts of None \<Rightarrow> {} | Some x \<Rightarrow> x))"
  by (induction s) (auto simp add: fun_eq_iff)

lemma fold_keys:
  "fst ` set (foldl summaries_step s cl) = fst ` set s \<union> timestamp ` set cl"
  by (induction cl arbitrary: s) (auto simp add: summaries_add_keys)

lemma fold_distinct:
  "distinct (map fst s) \<Longrightarrow> distinct (map fst (foldl summaries_step s cl))"
  by (induction cl arbitrary: s) (auto simp add: summaries_add_distinct)

lemma fold_map_of:
  "map_of (foldl summaries_step s cl) k =
     (if k \<in> fst ` set s \<union> timestamp ` set cl
      then Some ((case map_of s k of None \<Rightarrow> {} | Some x \<Rightarrow> x) \<union>
                 category ` {r \<in> set cl. timestamp r = k})
      else None)"
proof (induction cl arbitrary: s)
  case Nil
  show ?case
    using map_of_eq_None_iff [of s k] by (cases "map_of s k") auto
next
  case (Cons r cl)
  show ?case
    by (simp add: Cons.IH summaries_add_keys summaries_add_map_of) auto
qed

text \<open>
  C4. When \<^verbatim>\<open>index_changelog\<close> has processed the changelog of a product, the summary
  table has gained exactly one row for every distinct timestamp of the change records
  (and no other row); the row carries the product's id and title, and its categories
  are the distinct categories of the records with that timestamp, sorted and joined
  with commas.
\<close>

theorem summary_rows_per_timestamp:
  assumes "index_changelog product changelog cur = Inr cur'"
  shows "\<exists>rows. t_changelog_summary (visible cur') =
             map_option (\<lambda>old. old @ rows) (t_changelog_summary (visible cur)) \<and>
           distinct (map s_timestamp rows) \<and>
           set (map s_timestamp rows) = timestamp ` set changelog \<and>
           (\<forall>r \<in> set rows.
              s_product_id r = prod_id product \<and>
              s_product_title r = title product \<and>
              s_categories r =
                join '','' (sorted_list_of_set
                  (category ` {c \<in> set changelog. timestamp c = s_timestamp r})))"
proof -
  let ?s = "foldl summaries_step [] changelog"
  from assms obtain s c1 where
    1: "index_changelog_records product changelog [] cur = Inr (s, c1)"
    and 2: "index_changelog_summaries product s c1 = Inr cur'"
    by (auto simp add: index_changelog_def and_then_eq_Inr)
  from records_Inr [OF 1] have s: "s = ?s"
    and same: "t_changelog_summary (visible c1) = t_changelog_summary (visible cur)"
    by simp_all
  let ?rows = "map (summary_row_of product) ?s"
  have ts: "map s_timestamp ?rows = map fst ?s"
    by (simp add: summary_row_of_def comp_def)
  have d: "distinct (map fst ?s)"
    by (rule fold_distinct) simp
  have "t_changelog_summary (visible cur') =
          map_option (\<lambda>old. old @ ?rows) (t_changelog_summary (visible cur))"
    using summaries_Inr [OF 2] s same by simp
  moreover have "distinct (map s_timestamp ?rows)"
    unfolding ts by (rule d)
  moreover have "set (map s_timestamp ?rows) = timestamp ` set changelog"
    unfolding ts using fold_keys [of "[]" changelog] by simp
  moreover have "\<forall>r \<in> set ?rows.
      s_product_id r = prod_id product \<and>
      s_product_title r = title product \<and>
      s_categories r =
        join '','' (sorted_list_of_set
          (category ` {c \<in> set changelog. timestamp c = s_timestamp r}))"
  proof
    fix r assume "r \<in> set ?rows"
    then obtain k v where kv: "(k, v) \<in> set ?s" and r: "r = summary_row_of product (k, v)"
      by auto
    from kv d have "map_of ?s k = Some v" by simp
    then have "v = category ` {c \<in> set changelog. timestamp c = k}"
      by (simp add: fold_map_of split: if_splits)
    with r show "s_product_id r = prod_id product \<and>
      s_product_title r = title product \<and>
      s_categories r =
        join '','' (sorted_list_of_set
          (category ` {c \<in> set changelog. timestamp c = s_timestamp r}))"
      by (simp add: summary_row_of_def)
  qed
  ultimately show ?thesis by blast
qed

theorem summary_rows_per_timestamp_witness:
  "\<exists>cur' r. index_changelog (sample_product 1 None)
               [sample_property 5, sample_download 5 None None, sample_property 5]
               (connect (Some sample_index) None) = Inr cur' \<and>
     t_changelog_summary (visible cur') = Some [r] \<and>
     s_timestamp r = 5 \<and> s_categories r = ''download,property''"
proof -
  let ?cl = "[sample_property 5, sample_download 5 None None, sample_property 5]"
  let ?c = "connect (Some sample_index) None"
  obtain cur' where run: "index_changelog (sample_product 1 None) ?cl ?c = Inr cur'"
    by (simp add: run_defs)
  from summary_rows_per_timestamp [OF run] obtain rows where
    tab: "t_changelog_summary (visible cur') =
            map_option (\<lambda>old. old @ rows) (t_changelog_summary (visible ?c))"
    and dist: "distinct (map s_timestamp rows)"
    and keys: "set (map s_timestamp rows) = timestamp ` set ?cl"
    and cats: "\<forall>r \<in> set rows. s_categories r =
          join '','' (sorted_list_of_set (category ` {c \<in> set ?cl. timestamp c = s_timestamp r}))"
    by blast
  from keys have keys5: "set (map s_timestamp rows) = {5}"
    by (simp add: sample_property_def sample_download_def)
  from dist have "card (set (map s_timestamp rows)) = length rows"
    by (metis distinct_card length_map)
  with keys5 have "length rows = 1" by simp
  then obtain r where rows: "rows = [r]"
    by (cases rows) simp_all
  with keys5 have ts: "s_timestamp r = 5" by simp
  have "category ` {c \<in> set ?cl. timestamp c = 5} =
          set (map category (filter (\<lambda>c. timestamp c = 5) ?cl))"
    by (simp only: set_filter set_map)
  also have "\<dots> = {''download'', ''property''}"
    by (auto simp add: sample_property_def sample_download_def)
  finally have "category ` {c \<in> set ?cl. timestamp c = 5} = {''download'', ''property''}" .
  with cats rows ts have "s_categories r = ''download,property''" by simp
  moreover from tab rows have "t_changelog_summary (visible cur') = Some [r]"
    by (simp add: connect_def visible_def sample_index_def)
  ultimately show ?thesis using run ts by blast
qed

section \<open>Running the rebuild again\<close>

lemma execute_begin_Inr:
  assumes "execute BEGIN_TRANSACTION c = Inr b"
  shows "txn c = None \<and> txn b = Some (persisted c) \<and> persisted b = persisted c"
  using assms by (auto simp add: execute_def Let_def split: if_splits option.splits)

lemma execute_begin_ok:
  assumes "txn c = None" and "io_budget c = None"
  shows "\<exists>b. execute BEGIN_TRANSACTION c = Inr b \<and> txn b = Some (persisted c) \<and>
           persisted b = persisted c \<and> io_budget b = None"
  using assms by (simp add: execute_def)

lemma execute_end_Inr:
  assumes "execute END_TRANSACTION c = Inr b"
  shows "txn c = Some (persisted b) \<and> txn b = None"
  using assms by (auto simp add: execute_def Let_def split: if_splits option.splits)

lemma execute_end_ok:
  assumes "txn c = Some w" and "io_budget c = None"
  shows "\<exists>b. execute END_TRANSACTION c = Inr b \<and> persisted b = w \<and> txn b = None \<and>
           io_budget b = None"
  using assms by (simp add: execute_def)

lemma sim_execute:
  assumes "execute s c = Inr c'" and "same_view c d" and "io_budget d = None"
  shows "\<exists>d'. execute s d = Inr d' \<and> same_view c' d' \<and> io_budget d' = None"
proof -
  consider (start) "s = BEGIN_TRANSACTION" | (commit) "s = END_TRANSACTION"
    | (data) "s \<noteq> BEGIN_TRANSACTION" "s \<noteq> END_TRANSACTION" by blast
  then show ?thesis
  proof cases
    case start
    with execute_begin_Inr [of c c'] assms(1)
    have c: "txn c = None" "txn c' = Some (persisted c)" by simp_all
    with assms(2) have "txn d = None" "persisted d = persisted c"
      by (simp_all add: same_view_def visible_def)
    with execute_begin_ok [OF this(1) assms(3)] c start show ?thesis
      by (auto simp add: same_view_def visible_def)
  next
    case commit
    with execute_end_Inr [of c c'] assms(1)
    have c: "txn c = Some (persisted c')" "txn c' = None" by simp_all
    with assms(2) have "txn d = Some (persisted c')"
      by (auto simp add: same_view_def visible_def)
    with execute_end_ok [OF this assms(3)] c commit show ?thesis
      by (auto simp add: same_view_def visible_def)
  next
    case data
    with execute_Inr_data [OF assms(1)]
    have r: "run_statement s (visible c) = Some (visible c')"
      and t: "(txn c' = None) = (txn c = None)" by simp_all
    from r assms(2) have "run_statement s (visible d) = Some (visible c')"
      by (simp add: same_view_def)
    from execute_data [OF _ this] assms(3)
    obtain d' where "execute s d = Inr d'" "visible d' = visible c'"
      "(txn d' = None) = (txn d = None)" "io_budget d' = None"
      by auto
    with t assms(2) show ?thesis by (auto simp add: same_view_def)
  qed
qed

lemma sim_records:
  assumes "index_changelog_records p cl s c = Inr (s', c')"
    and "same_view c d" and "io_budget d = None"
  shows "\<exists>d'. index_changelog_records p cl s d = Inr (s', d') \<and> same_view c' d' \<and>
           io_budget d' = None"
  using assms
proof (induction cl arbitrary: s c d)
  case Nil
  then show ?case by simp
next
  case (Cons r cl)
  from Cons.prems(1) obtain idx where idx: "index_change p r = Inr idx"
    by (cases "index_change p r") simp_all
  with Cons.prems(1) obtain c1 where
    c1: "execute (INSERT_INTO_changelog (changelog_row_of idx)) c = Inr c1"
    and rest: "index_changelog_records p cl (summaries_add (timestamp r) (category r) s) c1
                 = Inr (s', c')"
    by (auto simp add: and_then_eq_Inr)
  from sim_execute [OF c1 Cons.prems(2,3)] obtain d1 where
    d1: "execute (INSERT_INTO_changelog (changelog_row_of idx)) d = Inr d1"
    "same_view c1 d1" "io_budget d1 = None" by blast
  from Cons.IH [OF rest d1(2,3)] idx d1(1) show ?case by simp
qed

lemma sim_summaries:
  assumes "index_changelog_summaries p items c = Inr c'"
    and "same_view c d" and "io_budget d = None"
  shows "\<exists>d'. index_changelog_summaries p items d = Inr d' \<and> same_view c' d' \<and>
           io_budget d' = None"
  using assms
proof (induction items arbitrary: c d)
  case Nil
  then show ?case by simp
next
  case (Cons item items)
  from Cons.prems(1) obtain c1 where
    c1: "execute (INSERT_INTO_changelog_summary (summary_row_of p item)) c = Inr c1"
    and rest: "index_changelog_summaries p items c1 = Inr c'"
    by (auto simp add: and_then_eq_Inr)
  from sim_execute [OF c1 Cons.prems(2,3)] obtain d1 where
    d1: "execute (INSERT_INTO_changelog_summary (summary_row_of p item)) d = Inr d1"
    "same_view c1 d1" "io_budget d1 = None" by blast
  from Cons.IH [OF rest d1(2,3)] d1(1) show ?case by simp
qed

lemma sim_index_changelog:
  assumes "index_changelog p cl c = Inr c'"
    and "same_view c d" and "io_budget d = None"
  shows "\<exists>d'. index_changelog p cl d = Inr d' \<and> same_view c' d' \<and> io_budget d' = None"
proof -
  from assms(1) obtain s c1 where
    1: "index_changelog_records p cl [] c = Inr (s, c1)"
    and 2: "index_changelog_summaries p s c1 = Inr c'"
    by (auto simp add: index_changelog_def and_then_eq_Inr)
  from sim_records [OF 1 assms(2,3)] obtain d1 where
    d1: "index_changelog_records p cl [] d = Inr (s, d1)" "same_view c1 d1" "io_budget d1 = None"
    by blast
  from sim_summaries [OF 2 d1(2,3)] d1(1) show ?thesis
    by (simp add: index_changelog_def)
qed

lemma sim_index_ids:
  assumes "index_ids nz db n ids c = Inr c'"
    and "same_view c d" and "io_budget d = None"
  shows "\<exists>d'. index_ids nz db n ids d = Inr d' \<and> same_view c' d' \<and> io_budget d' = None"
  using assms
proof (induction ids arbitrary: c d)
  case Nil
  then show ?case by simp
next
  case (Cons i ids)
  show ?case
  proof (cases "product_load db i")
    case None
    with Cons show ?thesis by simp
  next
    case (Some p)
    with Cons.prems(1) obtain c1 where
      c1: "execute (INSERT_INTO_products (product_row_of nz p n)) c = Inr c1"
      and rest: "(case changelog_load db i of
                    None \<Rightarrow> index_ids nz db n ids c1
                  | Some changelog \<Rightarrow>
                      and_then (index_changelog p changelog c1) (\<lambda>cur.
                      index_ids nz db n ids cur)) = Inr c'"
      by (auto simp add: and_then_eq_Inr index_product_def)
    from sim_execute [OF c1 Cons.prems(2,3)] obtain d1 where
      d1: "execute (INSERT_INTO_products (product_row_of nz p n)) d = Inr d1"
      "same_view c1 d1" "io_budget d1 = None" by blast
    show ?thesis
    proof (cases "changelog_load db i")
      case None
      with rest have "index_ids nz db n ids c1 = Inr c'" by simp
      from Cons.IH [OF this d1(2,3)] None Some d1(1) show ?thesis
        by (simp add: index_product_def)
    next
      case (Some cl)
      with rest obtain c2 where
        c2: "index_changelog p cl c1 = Inr c2" and r2: "index_ids nz db n ids c2 = Inr c'"
        by (auto simp add: and_then_eq_Inr)
      from sim_index_changelog [OF c2 d1(2,3)] obtain d2 where
        d2: "index_changelog p cl d1 = Inr d2" "same_view c2 d2" "io_budget d2 = None" by blast
      from Cons.IH [OF r2 d2(2,3)] Some \<open>product_load db i = Some p\<close> d1(1) d2(1)
      show ?thesis by (simp add: index_product_def)
    qed
  qed
qed

lemma execute_insert_products:
  assumes "execute (INSERT_INTO_products r) c = Inr c'"
  shows "\<exists>rs. t_products (visible c) = Some rs \<and>
           visible c' = (visible c)\<lparr>t_products := Some (rs @ [r])\<rparr>"
proof -
  from execute_Inr_data [OF assms]
  have "run_statement (INSERT_INTO_products r) (visible c) = Some (visible c')" by simp
  then show ?thesis by (auto split: option.splits)
qed

lemma schema_insert:
  assumes "execute s c = Inr c'"
    and "s = INSERT_INTO_products pr \<or> s = INSERT_INTO_changelog cr \<or>
         s = INSERT_INTO_changelog_summary sr"
  shows "schema (visible c') = schema (visible c)"
proof -
  from assms(2) consider
    (a) "s = INSERT_INTO_products pr" | (b) "s = INSERT_INTO_changelog cr"
    | (c) "s = INSERT_INTO_changelog_summary sr" by blast
  then show ?thesis
  proof cases
    case a
    with execute_insert_products [of pr c c'] assms(1) show ?thesis
      by (auto simp add: schema_def)
  next
    case b
    with execute_insert_changelog [of cr c c'] assms(1) show ?thesis
      by (auto simp add: schema_def)
  next
    case c
    with execute_insert_summary [of sr c c'] assms(1) show ?thesis
      by (auto simp add: schema_def)
  qed
qed

lemma schema_records:
  "index_changelog_records p cl s c = Inr (s', c') \<Longrightarrow> schema (visible c') = schema (visible c)"
proof (induction cl arbitrary: s c)
  case Nil
  then show ?case by simp
next
  case (Cons r cl)
  from Cons.prems obtain idx where idx: "index_change p r = Inr idx"
    by (cases "index_change p r") simp_all
  with Cons.prems obtain c1 where
    c1: "execute (INSERT_INTO_changelog (changelog_row_of idx)) c = Inr c1"
    and rest: "index_changelog_records p cl (summaries_add (timestamp r) (category r) s) c1
                 = Inr (s', c')"
    by (auto simp add: and_then_eq_Inr)
  from schema_insert [OF c1] Cons.IH [OF rest] show ?case by simp
qed

lemma schema_summaries:
  "index_changelog_summaries p items c = Inr c' \<Longrightarrow> schema (visible c') = schema (visible c)"
proof (induction items arbitrary: c)
  case Nil
  then show ?case by simp
next
  case (Cons item items)
  from Cons.prems obtain c1 where
    c1: "execute (INSERT_INTO_changelog_summary (summary_row_of p item)) c = Inr c1"
    and rest: "index_changelog_summaries p items c1 = Inr c'"
    by (auto simp add: and_then_eq_Inr)
  from schema_insert [OF c1] Cons.IH [OF rest] show ?case by simp
qed

lemma schema_index_changelog:
  assumes "index_changelog p cl c = Inr c'"
  shows "schema (visible c') = schema (visible c)"
proof -
  from assms obtain s c1 where
    1: "index_changelog_records p cl [] c = Inr (s, c1)"
    and 2: "index_changelog_summaries p s c1 = Inr c'"
    by (auto simp add: index_changelog_def and_then_eq_Inr)
  from schema_records [OF 1] schema_summaries [OF 2] show ?thesis by simp
qed

lemma schema_index_ids:
  "index_ids nz db n ids c = Inr c' \<Longrightarrow> schema (visible c') = schema (visible c)"
proof (induction ids arbitrary: c)
  case Nil
  then show ?case by simp
next
  case (Cons i ids)
  show ?case
  proof (cases "product_load db i")
    case None
    with Cons show ?thesis by simp
  next
    case (Some p)
    with Cons.prems obtain c1 where
      c1: "execute (INSERT_INTO_products (product_row_of nz p n)) c = Inr c1"
      and rest: "(case changelog_load db i of
                    None \<Rightarrow> index_ids nz db n ids c1
                  | Some changelog \<Rightarrow>
                      and_then (index_changelog p changelog c1) (\<lambda>cur.
                      index_ids nz db n ids cur)) = Inr c'"
      by (auto simp add: and_then_eq_Inr index_product_def)
    from schema_insert [OF c1] have s1: "schema (visible c1) = schema (visible c)" by simp
    show ?thesis
    proof (cases "changelog_load db i")
      case None
      with rest have "index_ids nz db n ids c1 = Inr c'" by simp
      from Cons.IH [OF this] s1 show ?thesis by simp
    next
      case (Some cl)
      with rest obtain c2 where
        c2: "index_changelog p cl c1 = Inr c2" and r2: "index_ids nz db n ids c2 = Inr c'"
        by (auto simp add: and_then_eq_Inr)
      from schema_index_changelog [OF c2] Cons.IH [OF r2] s1 show ?thesis by simp
    qed
  qed
qed

lemma delete_Inr:
  assumes "execute (DELETE_FROM n) c = Inr c'"
  shows "table_exists n (visible c) \<and> visible c' = create_table n (visible c) \<and>
         (txn c' = None) = (txn c = None)"
proof -
  from execute_Inr_data [OF assms]
  have "run_statement (DELETE_FROM n) (visible c) = Some (visible c')"
    and "(txn c' = None) = (txn c = None)" by simp_all
  then show ?thesis by (auto split: if_splits)
qed

lemma delete_ok:
  assumes "table_exists n (visible c)" and "io_budget c = None"
  shows "\<exists>c'. execute (DELETE_FROM n) c = Inr c' \<and> visible c' = create_table n (visible c) \<and>
           (txn c' = None) = (txn c = None) \<and> io_budget c' = None"
proof -
  from assms(1) have "run_statement (DELETE_FROM n) (visible c) = Some (create_table n (visible c))"
    by simp
  from execute_data [OF _ this] assms(2) show ?thesis by auto
qed

lemma clear_all:
  "create_table ChangelogSummary (create_table Changelog (create_table Products t)) =
     cleared (t_indexes t)"
  by (cases t) (simp add: cleared_def)

lemma table_exists_create:
  "table_exists n (create_table m t) = (n = m \<or> table_exists n t)"
  by (cases n; cases m) simp_all

lemma schema_all_exist:
  "schema t = (True, True, True, ixs) \<longleftrightarrow>
     table_exists Products t \<and> table_exists Changelog t \<and> table_exists ChangelogSummary t \<and>
     t_indexes t = ixs"
  by (simp add: schema_def)

lemma begin_clear_Inr:
  assumes "begin_clear c = Inr a"
  shows "txn c = None \<and> txn a \<noteq> None \<and>
         schema (persisted c) = (True, True, True, t_indexes (persisted c)) \<and>
         visible a = cleared (t_indexes (persisted c))"
proof -
  from assms obtain b where b: "execute BEGIN_TRANSACTION c = Inr b"
    and 1: "and_then (execute (DELETE_FROM Products) b) (\<lambda>cur.
            and_then (execute (DELETE_FROM Changelog) cur) (\<lambda>cur.
            execute (DELETE_FROM ChangelogSummary) cur)) = Inr a"
    unfolding begin_clear_def by (cases "execute BEGIN_TRANSACTION c") simp_all
  from 1 obtain a1 where a1: "execute (DELETE_FROM Products) b = Inr a1"
    and 2: "and_then (execute (DELETE_FROM Changelog) a1) (\<lambda>cur.
            execute (DELETE_FROM ChangelogSummary) cur) = Inr a"
    by (cases "execute (DELETE_FROM Products) b") simp_all
  from 2 obtain a2 where a2: "execute (DELETE_FROM Changelog) a1 = Inr a2"
    and a3: "execute (DELETE_FROM ChangelogSummary) a2 = Inr a"
    by (cases "execute (DELETE_FROM Changelog) a1") simp_all
  let ?P = "persisted c"
  from execute_begin_Inr [OF b] have c: "txn c = None" and tb: "txn b \<noteq> None"
    and vb: "visible b = ?P"
    by (simp_all add: visible_def)
  from delete_Inr [OF a1] vb have e1: "table_exists Products ?P"
    and v1: "visible a1 = create_table Products ?P" and t1: "(txn a1 = None) = (txn b = None)"
    by simp_all
  from delete_Inr [OF a2] v1 have e2: "table_exists Changelog (create_table Products ?P)"
    and v2: "visible a2 = create_table Changelog (create_table Products ?P)"
    and t2: "(txn a2 = None) = (txn a1 = None)"
    by simp_all
  from delete_Inr [OF a3] v2
  have e3: "table_exists ChangelogSummary (create_table Changelog (create_table Products ?P))"
    and v3: "visible a =
               create_table ChangelogSummary (create_table Changelog (create_table Products ?P))"
    and t3: "(txn a = None) = (txn a2 = None)"
    by simp_all
  from e1 e2 e3 have "schema ?P = (True, True, True, t_indexes ?P)"
    by (simp only: schema_all_exist table_exists_create) simp
  moreover from v3 have "visible a = cleared (t_indexes ?P)"
    by (simp only: clear_all)
  moreover from t1 t2 t3 tb have "txn a \<noteq> None" by simp
  ultimately show ?thesis using c by blast
qed

lemma begin_clear_ok:
  assumes "txn c = None" and "io_budget c = None"
    and "schema (persisted c) = (True, True, True, ixs)"
  shows "\<exists>a. begin_clear c = Inr a \<and> txn a \<noteq> None \<and> io_budget a = None \<and>
           visible a = cleared ixs"
proof -
  let ?P = "persisted c"
  from assms(3) have ex: "table_exists Products ?P" "table_exists Changelog ?P"
    "table_exists ChangelogSummary ?P" and ix: "t_indexes ?P = ixs"
    by (simp_all only: schema_all_exist)
  from execute_begin_ok [OF assms(1,2)] obtain b where
    b: "execute BEGIN_TRANSACTION c = Inr b" and tb: "txn b = Some ?P"
    and ib: "io_budget b = None"
    by blast
  from tb have vb: "visible b = ?P" by (simp add: visible_def)
  from ex(1) vb have "table_exists Products (visible b)" by simp
  from delete_ok [OF this ib] vb obtain a1 where
    a1: "execute (DELETE_FROM Products) b = Inr a1"
    and v1: "visible a1 = create_table Products ?P" and t1: "(txn a1 = None) = (txn b = None)"
    and i1: "io_budget a1 = None" by auto
  from ex(2) v1 have "table_exists Changelog (visible a1)"
    by (simp only: table_exists_create) simp
  from delete_ok [OF this i1] v1 obtain a2 where
    a2: "execute (DELETE_FROM Changelog) a1 = Inr a2"
    and v2: "visible a2 = create_table Changelog (create_table Products ?P)"
    and t2: "(txn a2 = None) = (txn a1 = None)"
    and i2: "io_budget a2 = None" by auto
  from ex(3) v2 have "table_exists ChangelogSummary (visible a2)"
    by (simp only: table_exists_create) simp
  from delete_ok [OF this i2] v2 obtain a3 where
    a3: "execute (DELETE_FROM ChangelogSummary) a2 = Inr a3"
    and v3: "visible a3 =
               create_table ChangelogSummary (create_table Changelog (create_table Products ?P))"
    and t3: "(txn a3 = None) = (txn a2 = None)"
    and i3: "io_budget a3 = None" by auto
  from v3 ix have "visible a3 = cleared ixs" by (simp only: clear_all)
  moreover from t1 t2 t3 tb have "txn a3 \<noteq> None" by simp
  moreover from b a1 a2 a3 have "begin_clear c = Inr a3" by (simp add: begin_clear_def)
  ultimately show ?thesis using i3 by blast
qed

lemma rebuild_begin_clear:
  "rebuild nz db ids c =
     and_then (and_then (begin_clear c) (index_ids nz db (int (length ids)) ids))
       (execute END_TRANSACTION)"
  by (simp add: rebuild_def begin_clear_def and_then_assoc)

lemma rebuild_closes:
  assumes "rebuild nz db ids c = Inr c1"
  shows "txn c1 = None"
proof -
  from assms obtain e where "execute END_TRANSACTION e = Inr c1"
    by (auto simp add: rebuild_begin_clear and_then_eq_Inr)
  from execute_end_Inr [OF this] show ?thesis by simp
qed

lemma rebuild_again:
  assumes "rebuild nz db ids c = Inr c1"
    and "txn d = None" and "io_budget d = None" and "persisted d = persisted c1"
  shows "\<exists>d1. rebuild nz db ids d = Inr d1 \<and> persisted d1 = persisted c1 \<and> txn d1 = None \<and>
           io_budget d1 = None"
proof -
  let ?n = "int (length ids)"
  from assms(1) obtain a e where
    a: "begin_clear c = Inr a" and e: "index_ids nz db ?n ids a = Inr e"
    and c1: "execute END_TRANSACTION e = Inr c1"
    by (auto simp add: rebuild_begin_clear and_then_eq_Inr)
  let ?ixs = "t_indexes (persisted c)"
  from begin_clear_Inr [OF a] have ta: "txn a \<noteq> None" and va: "visible a = cleared ?ixs"
    by simp_all
  from execute_end_Inr [OF c1] have te: "txn e = Some (persisted c1)" and tc1: "txn c1 = None"
    by simp_all
  then have ve: "visible e = persisted c1" by (simp add: visible_def)
  from schema_index_ids [OF e] va ve have "schema (persisted c1) = (True, True, True, ?ixs)"
    by (simp add: schema_def cleared_def)
  with assms(4) have "schema (persisted d) = (True, True, True, ?ixs)" by simp
  from begin_clear_ok [OF assms(2,3) this] obtain a' where
    a': "begin_clear d = Inr a'" "txn a' \<noteq> None" "io_budget a' = None"
    "visible a' = cleared ?ixs" by blast
  with ta va have "same_view a a'" by (auto simp add: same_view_def)
  from sim_index_ids [OF e this a'(3)] obtain e' where
    e': "index_ids nz db ?n ids a' = Inr e'" "same_view e e'" "io_budget e' = None" by blast
  with te have "txn e' = Some (persisted c1)"
    by (auto simp add: same_view_def visible_def)
  from execute_end_ok [OF this e'(3)] obtain d1 where
    "execute END_TRANSACTION e' = Inr d1" "persisted d1 = persisted c1" "txn d1 = None"
    "io_budget d1 = None" by blast
  with a'(1) e'(1) show ?thesis
    by (simp add: rebuild_begin_clear)
qed

lemma count_rows_Inr:
  assumes "count_rows c n = Inr (k, c')"
  shows "visible c' = visible c \<and> (txn c' = None) = (txn c = None) \<and>
         k = row_count n (visible c)"
proof -
  from assms obtain c1 where c1: "execute (SELECT_COUNT n) c = Inr c1"
    and k: "k = row_count n (visible c1)" and c': "c' = c1"
    by (auto simp add: count_rows_def and_then_eq_Inr)
  from execute_Inr_data [OF c1]
  have "run_statement (SELECT_COUNT n) (visible c) = Some (visible c1)"
    and "(txn c1 = None) = (txn c = None)" by simp_all
  with k c' show ?thesis by (auto split: if_splits)
qed

lemma sim_count_rows:
  assumes "count_rows c n = Inr (k, c')" and "same_view c d" and "io_budget d = None"
  shows "\<exists>d'. count_rows d n = Inr (k, d') \<and> same_view c' d' \<and> io_budget d' = None"
proof -
  from assms(1) obtain c1 where c1: "execute (SELECT_COUNT n) c = Inr c1"
    and k: "k = row_count n (visible c1)" and c': "c' = c1"
    by (auto simp add: count_rows_def and_then_eq_Inr)
  from sim_execute [OF c1 assms(2,3)] obtain d' where
    d': "execute (SELECT_COUNT n) d = Inr d'" "same_view c1 d'" "io_budget d' = None" by blast
  with k c' show ?thesis
    by (auto simp add: count_rows_def same_view_def)
qed


lemma and_then_pair_eq_Inr:
  "and_then r (\<lambda>(a, b). f a b) = Inr y \<longleftrightarrow> (\<exists>a b. r = Inr (a, b) \<and> f a b = Inr y)"
  by (cases r) auto

text \<open>
  C8. When \<^verbatim>\<open>index_main\<close> has run to its end, running it again on the index it
  left, with the same primary store, succeeds, prints the same row counts and leaves
  the same three tables, row for row.
\<close>

theorem rebuild_twice_same_tables:
  assumes "index_main nz db file budget = Inr (stats, cur)"
  shows "\<exists>cur'. index_main nz db (Some (persisted cur)) None = Inr (stats, cur') \<and>
           persisted cur' = persisted cur"
proof -
  let ?ids = "ids_load db"
  from assms obtain ca where
    1: "and_then (rebuild nz db ?ids ca) (\<lambda>cur.
        and_then (count_rows cur Products) (\<lambda>(n_products, cur).
        and_then (count_rows cur Changelog) (\<lambda>(n_changelog, cur).
        and_then (count_rows cur ChangelogSummary) (\<lambda>(n_summary, cur).
        Inr ((n_products, n_changelog, n_summary), cur))))) = Inr (stats, cur)"
    unfolding index_main_def Let_def and_then_eq_Inr [of "if _ then _ else _"] by blast
  then obtain c1 where r: "rebuild nz db ?ids ca = Inr c1"
    and 2: "and_then (count_rows c1 Products) (\<lambda>(n_products, cur).
        and_then (count_rows cur Changelog) (\<lambda>(n_changelog, cur).
        and_then (count_rows cur ChangelogSummary) (\<lambda>(n_summary, cur).
        Inr ((n_products, n_changelog, n_summary), cur)))) = Inr (stats, cur)"
    unfolding and_then_eq_Inr [of "rebuild _ _ _ _"] by blast
  then obtain n1 c2 where k1: "count_rows c1 Products = Inr (n1, c2)"
    and 3: "and_then (count_rows c2 Changelog) (\<lambda>(n_changelog, cur).
        and_then (count_rows cur ChangelogSummary) (\<lambda>(n_summary, cur).
        Inr ((n1, n_changelog, n_summary), cur))) = Inr (stats, cur)"
    unfolding and_then_pair_eq_Inr [of "count_rows _ Products"] by blast
  then obtain n2 c3 where k2: "count_rows c2 Changelog = Inr (n2, c3)"
    and 4: "and_then (count_rows c3 ChangelogSummary) (\<lambda>(n_summary, cur).
        Inr ((n1, n2, n_summary), cur)) = Inr (stats, cur)"
    unfolding and_then_pair_eq_Inr [of "count_rows _ Changelog"] by blast
  then obtain n3 where k3: "count_rows c3 ChangelogSummary = Inr (n3, cur)"
    and stats: "stats = (n1, n2, n3)"
    unfolding and_then_pair_eq_Inr [of "count_rows _ ChangelogSummary"] by auto
  let ?d = "connect (Some (persisted cur)) None"
  have d: "txn ?d = None" "io_budget ?d = None" "persisted ?d = persisted cur"
    by (simp_all add: connect_def)
  have rb: "txn c1 = None"
    by (rule rebuild_closes [OF r])
  from count_rows_Inr [OF k1] count_rows_Inr [OF k2] count_rows_Inr [OF k3] rb
  have v: "visible cur = visible c1" and t: "txn cur = None" "txn c2 = None" "txn c3 = None"
    by simp_all
  with rb have pc: "persisted cur = persisted c1" by (simp add: visible_def)
  with d have "persisted ?d = persisted c1" by simp
  from rebuild_again [OF r d(1,2) this] obtain d1 where
    d1: "rebuild nz db ?ids ?d = Inr d1" "persisted d1 = persisted c1" "txn d1 = None"
    "io_budget d1 = None" by blast
  with rb have "same_view c1 d1" by (simp add: same_view_def visible_def)
  from sim_count_rows [OF k1 this d1(4)] obtain d2 where
    d2: "count_rows d1 Products = Inr (n1, d2)" "same_view c2 d2" "io_budget d2 = None" by blast
  from sim_count_rows [OF k2 d2(2,3)] obtain d3 where
    d3: "count_rows d2 Changelog = Inr (n2, d3)" "same_view c3 d3" "io_budget d3 = None" by blast
  from sim_count_rows [OF k3 d3(2,3)] obtain d4 where
    d4: "count_rows d3 ChangelogSummary = Inr (n3, d4)" "same_view cur d4" by blast
  from d4(2) t(1) have "persisted d4 = persisted cur"
    by (simp add: same_view_def visible_def)
  with d1(1) d2(1) d3(1) d4(1) stats show ?thesis
    by (simp add: index_main_def)
qed

theorem rebuild_twice_same_tables_witness:
  "\<exists>cur cur'.
     index_main sample_nz (sample_db [sample_download 5 None None, sample_property 5]) None None
       = Inr ((2, 2, 1), cur) \<and>
     index_main sample_nz (sample_db [sample_download 5 None None, sample_property 5])
       (Some (persisted cur)) None = Inr ((2, 2, 1), cur') \<and>
     persisted cur' = persisted cur"
proof -
  let ?db = "sample_db [sample_download 5 None None, sample_property 5]"
  obtain cur where run: "index_main sample_nz ?db None None = Inr ((2, 2, 1), cur)"
    by (simp add: run_defs)
  from rebuild_twice_same_tables [OF run] run show ?thesis by blast
qed

section \<open>Records without their payload\<close>

lemma isl_and_then_left: "isl r \<Longrightarrow> isl (and_then r f)"
  by (cases r) simp_all

lemma isl_and_then_right: "(\<And>x. isl (f x)) \<Longrightarrow> isl (and_then r f)"
  by (cases r) simp_all

lemma records_append:
  "index_changelog_records product (xs @ ys) s cur =
     and_then (index_changelog_records product xs s cur)
       (\<lambda>(s', cur'). index_changelog_records product ys s' cur')"
proof (induction xs arbitrary: s cur)
  case Nil
  show ?case by simp
next
  case (Cons r xs)
  have IH: "index_changelog_records product (xs @ ys) s' =
              (\<lambda>c. and_then (index_changelog_records product xs s' c)
                     (\<lambda>(s', cur'). index_changelog_records product ys s' cur'))" for s'
    by (rule ext) (rule Cons.IH)
  show ?case
    by (cases "index_change product r") (simp_all add: IH and_then_assoc)
qed

lemma records_fail:
  assumes "changerec \<in> set changelog" and "index_change product changerec = Inl e"
  shows "isl (index_changelog_records product changelog s cur)"
  using assms(1)
proof (induction changelog arbitrary: s cur)
  case Nil
  then show ?case by simp
next
  case (Cons r rs)
  show ?case
  proof (cases "index_change product r")
    case (Inl e')
    then show ?thesis by simp
  next
    case (Inr idx)
    with assms(2) have "changerec \<noteq> r" by auto
    with Cons.prems have "changerec \<in> set rs" by simp
    then have "isl (index_changelog_records product rs s' c)" for s' c
      by (rule Cons.IH)
    then show ?thesis
      using Inr by (simp add: isl_and_then_right)
  qed
qed

lemma index_changelog_fail:
  assumes "changerec \<in> set changelog" and "index_change product changerec = Inl e"
  shows "isl (index_changelog product changelog cur)"
  unfolding index_changelog_def
  by (rule isl_and_then_left) (rule records_fail [OF assms])

lemma index_ids_fail:
  assumes "product_load db i = Some product" and "changelog_load db i = Some changelog"
    and "changerec \<in> set changelog" and "index_change product changerec = Inl e"
    and "i \<in> set ids"
  shows "isl (index_ids nz db n ids cur)"
  using assms(5)
proof (induction ids arbitrary: cur)
  case Nil
  then show ?case by simp
next
  case (Cons j ids)
  show ?case
  proof (cases "j = i")
    case True
    have "isl (and_then (index_changelog product changelog c) (index_ids nz db n ids))" for c
      by (rule isl_and_then_left) (rule index_changelog_fail [OF assms(3,4)])
    then have "isl (and_then (index_product nz product cur n) (\<lambda>c.
                 and_then (index_changelog product changelog c) (index_ids nz db n ids)))"
      by (rule isl_and_then_right)
    with True assms(1,2) show ?thesis by simp
  next
    case False
    with Cons.prems have "i \<in> set ids" by simp
    then have IH: "isl (index_ids nz db n ids c)" for c
      by (rule Cons.IH)
    show ?thesis
    proof (cases "product_load db j")
      case None
      with IH show ?thesis by simp
    next
      case (Some q)
      have "isl (case changelog_load db j of
                   None \<Rightarrow> index_ids nz db n ids c
                 | Some cl \<Rightarrow> and_then (index_changelog q cl c) (index_ids nz db n ids))" for c
        by (cases "changelog_load db j") (simp_all add: IH isl_and_then_right)
      then have "isl (and_then (index_product nz q cur n) (\<lambda>c.
                   case changelog_load db j of
                     None \<Rightarrow> index_ids nz db n ids c
                   | Some cl \<Rightarrow> and_then (index_changelog q cl c) (index_ids nz db n ids)))"
        by (rule isl_and_then_right)
      with Some show ?thesis by simp
    qed
  qed
qed

lemma rebuild_Inl:
  assumes "rebuild nz db ids cur = Inl (e, c)"
  shows "persisted c = persisted cur"
proof (cases "execute BEGIN_TRANSACTION cur")
  case (Inl a)
  with assms have "execute BEGIN_TRANSACTION cur = Inl (e, c)" by (simp add: rebuild_def)
  from execute_Inl [OF this] show ?thesis by simp
next
  case (Inr c1)
  then have c1: "persisted c1 = persisted cur" "txn c1 \<noteq> None"
    using execute_begin_Inr [OF Inr] by simp_all
  let ?P = "persisted cur"
  let ?mid = "and_then (execute (DELETE_FROM Products) c1) (\<lambda>cur.
      and_then (execute (DELETE_FROM Changelog) cur) (\<lambda>cur.
      and_then (execute (DELETE_FROM ChangelogSummary) cur) (\<lambda>cur.
      index_ids nz db (int (length ids)) ids cur)))"
  have k: "keeps ?P (\<lambda>c. c) ?mid"
    by (intro keeps_and_then [where g = "\<lambda>c. c" and h = "\<lambda>c. c"] keeps_execute
          keeps_index_ids c1)
       simp_all
  have r: "rebuild nz db ids cur = and_then ?mid (execute END_TRANSACTION)"
    by (simp add: rebuild_def Inr and_then_assoc)
  show ?thesis
  proof (cases ?mid)
    case (Inl a)
    with k r assms show ?thesis by (auto simp add: keeps_def)
  next
    case (Inr c2)
    with k have c2: "persisted c2 = ?P" by (simp add: keeps_def)
    from r Inr assms have "execute END_TRANSACTION c2 = Inl (e, c)" by simp
    from execute_Inl [OF this] c2 show ?thesis by simp
  qed
qed

lemma rebuild_fail:
  assumes "product_load db i = Some product" and "changelog_load db i = Some changelog"
    and "changerec \<in> set changelog" and "index_change product changerec = Inl e"
    and "i \<in> set ids"
  shows "\<exists>e' c. rebuild nz db ids cur = Inl (e', c) \<and> persisted c = persisted cur"
proof -
  have "isl (and_then (begin_clear cur) (index_ids nz db (int (length ids)) ids))"
    by (rule isl_and_then_right) (rule index_ids_fail [OF assms])
  then have "isl (rebuild nz db ids cur)"
    unfolding rebuild_begin_clear by (rule isl_and_then_left)
  then obtain e' c where "rebuild nz db ids cur = Inl (e', c)"
    by (cases "rebuild nz db ids cur") auto
  with rebuild_Inl [OF this] show ?thesis by blast
qed

text \<open>
  C5, as the code has it. A change record whose category is neither \<^verbatim>\<open>download\<close> nor
  \<^verbatim>\<open>property\<close> is projected without error and its three category-specific columns
  are null; a record of one of the two known categories is projected without error
  when its payload is present. A record of a known category without its payload is
  not projected with null columns: reading the payload's attribute raises
  \<open>AttributeError\<close>. Wherever such a record stands in a changelog and whatever the
  dictionary holds by then, the first loop of \<^verbatim>\<open>index_changelog\<close> ends there with the
  exception of the projection, after the rows of the records before it and before
  anything is inserted for the record itself; \<^verbatim>\<open>index_changelog\<close> raises; and a
  rebuild whose id list has the product of that changelog raises and leaves the file
  as it was before the rebuild.
\<close>

theorem category_specific_columns:
  "(category changerec \<noteq> ''download'' \<and> category changerec \<noteq> ''property'' \<longrightarrow>
      (\<exists>idx. index_change product changerec = Inr idx \<and>
         c_dl_type (changelog_row_of idx) = None \<and>
         c_bonus_type (changelog_row_of idx) = None \<and>
         c_property_name (changelog_row_of idx) = None)) \<and>
   (category changerec = ''download'' \<longrightarrow>
      (download_record changerec \<noteq> None \<longrightarrow>
         (\<exists>idx. index_change product changerec = Inr idx)) \<and>
      (download_record changerec = None \<longrightarrow>
         index_change product changerec = Inl AttributeError)) \<and>
   (category changerec = ''property'' \<longrightarrow>
      (property_record changerec \<noteq> None \<longrightarrow>
         (\<exists>idx. index_change product changerec = Inr idx)) \<and>
      (property_record changerec = None \<longrightarrow>
         index_change product changerec = Inl AttributeError)) \<and>
   (\<forall>e. index_change product changerec = Inl e \<longrightarrow>
      index_changelog product (changerec # rest) cur = Inl (e, cur)) \<and>
   (\<forall>e. index_change product changerec = Inl e \<longrightarrow>
      index_changelog_records product (before @ changerec # rest) s cur =
        and_then (index_changelog_records product before s cur) (\<lambda>(s', cur'). Inl (e, cur'))) \<and>
   (\<forall>e. index_change product changerec = Inl e \<and> changerec \<in> set changelog \<longrightarrow>
      (\<exists>e' c. index_changelog product changelog cur = Inl (e', c))) \<and>
   (\<forall>e. index_change product changerec = Inl e \<and> changerec \<in> set changelog \<and>
        product_load db i = Some product \<and> changelog_load db i = Some changelog \<and>
        i \<in> set ids \<longrightarrow>
      (\<exists>e' c. rebuild nz db ids cur = Inl (e', c) \<and> persisted c = persisted cur))"
proof -
  have head: "\<forall>e. index_change product changerec = Inl e \<longrightarrow>
          index_changelog product (changerec # rest) cur = Inl (e, cur)"
    by (simp add: index_changelog_def and_then_def)
  have anywhere: "\<forall>e. index_change product changerec = Inl e \<longrightarrow>
      index_changelog_records product (before @ changerec # rest) s cur =
        and_then (index_changelog_records product before s cur) (\<lambda>(s', cur'). Inl (e, cur'))"
    by (simp add: records_append)
  have whole: "\<forall>e. index_change product changerec = Inl e \<and> changerec \<in> set changelog \<longrightarrow>
      (\<exists>e' c. index_changelog product changelog cur = Inl (e', c))"
  proof (intro allI impI)
    fix e assume "index_change product changerec = Inl e \<and> changerec \<in> set changelog"
    then have "isl (index_changelog product changelog cur)"
      using index_changelog_fail by blast
    then show "\<exists>e' c. index_changelog product changelog cur = Inl (e', c)"
      by (cases "index_changelog product changelog cur") auto
  qed
  have run: "\<forall>e. index_change product changerec = Inl e \<and> changerec \<in> set changelog \<and>
        product_load db i = Some product \<and> changelog_load db i = Some changelog \<and>
        i \<in> set ids \<longrightarrow>
      (\<exists>e' c. rebuild nz db ids cur = Inl (e', c) \<and> persisted c = persisted cur)"
    using rebuild_fail by blast
  have proj: "(category changerec \<noteq> ''download'' \<and> category changerec \<noteq> ''property'' \<longrightarrow>
      (\<exists>idx. index_change product changerec = Inr idx \<and>
         c_dl_type (changelog_row_of idx) = None \<and>
         c_bonus_type (changelog_row_of idx) = None \<and>
         c_property_name (changelog_row_of idx) = None)) \<and>
   (category changerec = ''download'' \<longrightarrow>
      (download_record changerec \<noteq> None \<longrightarrow>
         (\<exists>idx. index_change product changerec = Inr idx)) \<and>
      (download_record changerec = None \<longrightarrow>
         index_change product changerec = Inl AttributeError)) \<and>
   (category changerec = ''property'' \<longrightarrow>
      (property_record changerec \<noteq> None \<longrightarrow>
         (\<exists>idx. index_change product changerec = Inr idx)) \<and>
      (property_record changerec = None \<longrightarrow>
         index_change product changerec = Inl AttributeError))"
    by (auto simp add: index_change_def changelog_row_of_def Let_def split: option.splits)
  from proj head anywhere whole run show ?thesis by (intro conjI) blast+
qed

theorem category_specific_columns_witness:
  "(\<exists>idx. index_change (sample_product 1 None) (sample_record ''build'') = Inr idx \<and>
          c_dl_type (changelog_row_of idx) = None \<and>
          c_bonus_type (changelog_row_of idx) = None \<and>
          c_property_name (changelog_row_of idx) = None) \<and>
   (\<exists>idx. index_change (sample_product 1 None) (sample_download 100 None None) = Inr idx) \<and>
   (\<exists>idx. index_change (sample_product 1 None) (sample_property 100) = Inr idx) \<and>
   index_change (sample_product 1 None) (sample_record ''property'') = Inl AttributeError \<and>
   (\<exists>c. index_changelog_records (sample_product 1 (Some 1))
           [sample_property 5, sample_record ''download''] []
           (connect (Some sample_index) None) = Inl (AttributeError, c)) \<and>
   (\<exists>e c. rebuild sample_nz (sample_db [sample_property 5, sample_record ''download''])
             [1, 2, 3] (connect (Some sample_index) None) = Inl (e, c) \<and>
           persisted c = sample_index)"
proof -
  let ?c = "connect (Some sample_index) None"
  let ?cl = "[sample_property 5, sample_record ''download'']"
  have bad: "index_change (sample_product 1 (Some 1)) (sample_record ''download'') =
               Inl AttributeError"
    by (simp add: index_change_def sample_record_def)
  have 1: "(\<exists>idx. index_change (sample_product 1 None) (sample_record ''build'') = Inr idx \<and>
          c_dl_type (changelog_row_of idx) = None \<and>
          c_bonus_type (changelog_row_of idx) = None \<and>
          c_property_name (changelog_row_of idx) = None)"
    using category_specific_columns
      [where changerec = "sample_record ''build''" and product = "sample_product 1 None"]
    by (simp add: sample_record_def)
  have 2: "\<exists>idx. index_change (sample_product 1 None) (sample_download 100 None None) = Inr idx"
    using category_specific_columns
      [where changerec = "sample_download 100 None None" and product = "sample_product 1 None"]
    by (simp add: sample_download_def)
  have 3: "\<exists>idx. index_change (sample_product 1 None) (sample_property 100) = Inr idx"
    using category_specific_columns
      [where changerec = "sample_property 100" and product = "sample_product 1 None"]
    by (simp add: sample_property_def)
  have 4: "index_change (sample_product 1 None) (sample_record ''property'') = Inl AttributeError"
    using category_specific_columns
      [where changerec = "sample_record ''property''" and product = "sample_product 1 None"]
    by (simp add: sample_record_def)
  have "index_changelog_records (sample_product 1 (Some 1))
          ([sample_property 5] @ sample_record ''download'' # []) [] ?c =
        and_then (index_changelog_records (sample_product 1 (Some 1)) [sample_property 5] [] ?c)
          (\<lambda>(s', cur'). Inl (AttributeError, cur'))"
    using category_specific_columns
      [where changerec = "sample_record ''download''" and product = "sample_product 1 (Some 1)"
         and before = "[sample_property 5]" and rest = "[]" and s = "[]" and cur = ?c]
      bad
    by blast
  then have 5: "\<exists>c. index_changelog_records (sample_product 1 (Some 1)) ?cl []
                      ?c = Inl (AttributeError, c)"
    by (simp add: run_defs)
  have "sample_record ''download'' \<in> set ?cl"
    and "product_load (sample_db ?cl) 1 = Some (sample_product 1 (Some 1))"
    and "changelog_load (sample_db ?cl) 1 = Some ?cl"
    and "(1::int) \<in> set [1, 2, 3]"
    by (simp_all add: sample_db_def)
  with bad have "\<exists>e c. rebuild sample_nz (sample_db ?cl) [1, 2, 3] ?c = Inl (e, c) \<and>
                    persisted c = persisted ?c"
    using category_specific_columns
      [where changerec = "sample_record ''download''" and product = "sample_product 1 (Some 1)"
         and changelog = ?cl and db = "sample_db ?cl" and i = 1 and ids = "[1, 2, 3]"
         and nz = sample_nz and cur = ?c]
    by blast
  then have 6: "\<exists>e c. rebuild sample_nz (sample_db ?cl) [1, 2, 3] ?c = Inl (e, c) \<and>
                    persisted c = sample_index"
    by (simp add: connect_def)
  from 1 2 3 4 5 6 show ?thesis by blast
qed

text \<open>
  C5, as the claim states it, fails: a \<^verbatim>\<open>download\<close> record without its payload is
  structurally valid, yet its projection raises, and the rebuild that meets it ends
  with that exception (rolled back) instead of a row with null columns.
\<close>

theorem missing_payload_counterexample:
  "index_change (sample_product 1 None) (sample_record ''download'') = Inl AttributeError \<and>
   (\<exists>c. rebuild sample_nz (sample_db [sample_record ''download'']) [1, 2, 3]
           (connect (Some sample_index) None) = Inl (AttributeError, c) \<and>
         persisted c = sample_index)"
  by (simp add: run_defs)

section \<open>The serialized record\<close>









lemma sort_keys_encoder:
  "sort_keys (json_encoder r) = JObj
     [(''action'', JStr (action r)),
      (''category'', JStr (category r)),
      (''download_record'', sort_keys (download_json (download_record r))),
      (''product_id'', JInt (product_id r)),
      (''property_record'', sort_keys (property_json (property_record r))),
      (''timestamp'', JInt (timestamp r))]"
  by (simp add: json_encoder_def)




lemma strip_prefix_append: "strip_prefix p (p @ s) = Some s"
  by (induction p) simp_all


lemma read_string_plain:
  assumes "c \<noteq> CHR ''\"''" and "c \<noteq> CHR 0x5C" and "32 \<le> (of_char c :: nat)"
  shows "read_string (c # X) = cons_to c (read_string X)"
  using assms by simp





























end
